theory Spec2Isabelle
  imports Main "HOL-Library.AList" "HOL-Library.Product_Lexorder"
begin

section \<open>Strings as the services use them\<close>

text \<open>
  JavaScript strings are modelled as \<open>string\<close> (a list of 8-bit characters). Identifiers in
  this system are ledger addresses and DID strings, which are ASCII; \<open>toLowerCase\<close> lowers
  the letters A to Z and leaves every other character alone.
\<close>

definition lower_char :: "char \<Rightarrow> char" where
  "lower_char c =
     (let n = (of_char c :: nat) in if 65 \<le> n \<and> n \<le> 90 then char_of (n + 32) else c)"

definition toLowerCase :: "string \<Rightarrow> string" where
  "toLowerCase s = map lower_char s"

text \<open>\<open>s.split(c)\<close> for a one-character separator: never empty, \<open>''''\<close> gives \<open>['''']\<close>.\<close>

fun split :: "char \<Rightarrow> string \<Rightarrow> string list" where
  "split c [] = [[]]"
| "split c (x # xs) =
     (let r = split c xs in if x = c then [] # r else (x # hd r) # tl r)"

definition startsWith :: "string \<Rightarrow> string \<Rightarrow> bool" where
  "startsWith s p = (take (length p) s = p)"

text \<open>\<open>s.replace(pat, rep)\<close> with a string pattern: the first occurrence only.\<close>

fun replace :: "string \<Rightarrow> string \<Rightarrow> string \<Rightarrow> string" where
  "replace [] pat rep = (if pat = [] then rep else [])"
| "replace (x # xs) pat rep =
     (if startsWith (x # xs) pat then rep @ drop (length pat) (x # xs)
      else x # replace xs pat rep)"

text \<open>\<open>parts[i] || dflt\<close>: a missing or empty segment takes the default.\<close>

definition part_or :: "string list \<Rightarrow> nat \<Rightarrow> string \<Rightarrow> string" where
  "part_or parts i dflt = (if i < length parts \<and> parts ! i \<noteq> [] then parts ! i else dflt)"

text \<open>Template interpolation of an array index: its decimal digits.\<close>

definition digit_char :: "nat \<Rightarrow> char" where
  "digit_char d = char_of (48 + d)"

fun decimal :: "nat \<Rightarrow> string" where
  "decimal n = (if n < 10 then [digit_char n] else decimal (n div 10) @ [digit_char (n mod 10)])"

declare decimal.simps [simp del]

text \<open>A JavaScript truthiness test on \<open>string | null\<close>: null and the empty string are falsy.\<close>

definition truthy :: "string option \<Rightarrow> bool" where
  "truthy v = (case v of None \<Rightarrow> False | Some s \<Rightarrow> s \<noteq> [])"

section \<open>Entities\<close>

text \<open>
  The rows of the Event table. \<open>args\<close> is the JSON key bag written by the ingestion
  handlers; a field a handler does not write is not read for that event name. \<open>validTo\<close> is
  stored as the decimal string of the ledger's integer and read back with \<open>parseInt\<close>; the
  model carries the integer.
\<close>

record EventArgs =
  a_identity :: "string option"
  a_owner :: string
  a_delegateType :: string
  a_delegate :: string
  a_name :: string
  a_value :: string
  a_validTo :: int
  a_previousChange :: string

record Event =
  e_id :: nat
  transactionHash :: string
  blockNumber :: nat
  eventName :: string
  args :: EventArgs

text \<open>
  Delegate and Attribute rows. The objects built by the historical replay carry only the
  type, address and validity fields (the generated id and the owning identity are absent
  there), hence the optional fields.
\<close>

record Delegate =
  d_id :: "nat option"
  d_identity :: "string option"
  delegateType :: string
  delegateAddress :: string
  d_validTo :: int

record Attribute =
  t_id :: "nat option"
  t_identity :: "string option"
  t_name :: string
  t_value :: string
  t_validTo :: int

record Identity =
  address :: string
  controller :: "string option"

section \<open>DID documents\<close>

record VerificationMethod =
  vm_id :: string
  vm_type :: string
  vm_controller :: string
  blockchainAccountId :: "string option"
  publicKeyBase64 :: "string option"
  publicKeyHex :: "string option"

record ServiceEndpoint =
  sv_id :: string
  sv_type :: string
  serviceEndpoint :: string

record DidDocument =
  doc_context :: "string list"
  doc_id :: string
  doc_controller :: "string option"
  verificationMethod :: "VerificationMethod list"
  authentication :: "string list"
  assertionMethod :: "string list"
  service :: "ServiceEndpoint list option"

definition DID_CONTEXTS :: "string list" where
  "DID_CONTEXTS =
     [''https://www.w3.org/ns/did/v1'',
      ''https://w3id.org/security/suites/secp256k1recovery-2020/v2'',
      ''https://w3id.org/security/suites/secp256k1-2019/v1'']"

definition extractAddress :: "string \<Rightarrow> string" where
  "extractAddress did =
     (let parts = split CHR '':'' did;
          addr = (if length parts > 1 then last parts else did)
      in toLowerCase addr)"

text \<open>
  The three accumulators that \<open>buildDidDocument\<close> pushes to while it walks the valid
  delegates and the public-key attributes.
\<close>

record Acc =
  acc_vm :: "VerificationMethod list"
  acc_auth :: "string list"
  acc_assert :: "string list"

text \<open>The object pushed for the delegate at \<open>index\<close> of the valid delegates.\<close>

definition delegateMethod :: "string \<Rightarrow> nat \<Rightarrow> Delegate \<Rightarrow> VerificationMethod" where
  "delegateMethod did index delegate =
     \<lparr>vm_id = did @ ''#delegate-'' @ decimal index,
      vm_type = ''EcdsaSecp256k1RecoveryMethod2020'',
      vm_controller = did,
      blockchainAccountId = Some (''eip155:1:'' @ delegateAddress delegate),
      publicKeyBase64 = None,
      publicKeyHex = None\<rparr>"

definition delegateStep :: "string \<Rightarrow> Acc \<Rightarrow> nat \<Rightarrow> Delegate \<Rightarrow> Acc" where
  "delegateStep did acc index delegate =
     (let delegateId = did @ ''#delegate-'' @ decimal index;
          acc1 = acc\<lparr>acc_vm := acc_vm acc @ [delegateMethod did index delegate]\<rparr>;
          acc2 = (if delegateType delegate = ''sigAuth''
                  then acc1\<lparr>acc_auth := acc_auth acc1 @ [delegateId]\<rparr> else acc1)
      in if delegateType delegate = ''veriKey''
         then acc2\<lparr>acc_assert := acc_assert acc2 @ [delegateId]\<rparr> else acc2)"

text \<open>The object pushed for the public-key attribute at \<open>index\<close> of the valid ones.\<close>

definition keyMethod :: "string \<Rightarrow> nat \<Rightarrow> Attribute \<Rightarrow> VerificationMethod" where
  "keyMethod did index attr =
     (let parts = split CHR ''/'' (t_name attr);
          algorithm = part_or parts 2 ''Unknown'';
          encoding = part_or parts 4 ''base64''
      in \<lparr>vm_id = did @ ''#key-'' @ decimal index,
          vm_type = algorithm @ ''VerificationKey2020'',
          vm_controller = did,
          blockchainAccountId = None,
          publicKeyBase64 = (if encoding = ''base64'' then Some (t_value attr) else None),
          publicKeyHex = (if encoding = ''hex'' then Some (t_value attr) else None)\<rparr>)"

definition keyStep :: "string \<Rightarrow> Acc \<Rightarrow> nat \<Rightarrow> Attribute \<Rightarrow> Acc" where
  "keyStep did acc index attr =
     (let parts = split CHR ''/'' (t_name attr);
          keyType = part_or parts 3 ''veriKey'';
          keyId = did @ ''#key-'' @ decimal index;
          acc1 = acc\<lparr>acc_vm := acc_vm acc @ [keyMethod did index attr]\<rparr>;
          acc2 = (if keyType = ''veriKey''
                  then acc1\<lparr>acc_assert := acc_assert acc1 @ [keyId]\<rparr> else acc1)
      in if keyType = ''sigAuth''
         then acc2\<lparr>acc_auth := acc_auth acc2 @ [keyId]\<rparr> else acc2)"

text \<open>\<open>xs.forEach((x, index) => ...)\<close> over an accumulator, the index counting from \<open>i\<close>.\<close>

fun forEach :: "(Acc \<Rightarrow> nat \<Rightarrow> 'a \<Rightarrow> Acc) \<Rightarrow> nat \<Rightarrow> 'a list \<Rightarrow> Acc \<Rightarrow> Acc" where
  "forEach f i [] acc = acc"
| "forEach f i (x # xs) acc = forEach f (Suc i) xs (f acc i x)"

text \<open>\<open>xs.map((x, index) => ...)\<close>, the index counting from \<open>i\<close>.\<close>

fun mapIndexed :: "(nat \<Rightarrow> 'a \<Rightarrow> 'b) \<Rightarrow> nat \<Rightarrow> 'a list \<Rightarrow> 'b list" where
  "mapIndexed f i [] = []"
| "mapIndexed f i (x # xs) = f i x # mapIndexed f (Suc i) xs"

text \<open>The primary verification method (the controller key).\<close>

definition controllerMethod :: "string \<Rightarrow> string option \<Rightarrow> VerificationMethod" where
  "controllerMethod addr ctrl =
     \<lparr>vm_id = ''did:ethr:'' @ addr @ ''#controller'',
      vm_type = ''EcdsaSecp256k1RecoveryMethod2020'',
      vm_controller = (if truthy ctrl then ''did:ethr:'' @ the ctrl else ''did:ethr:'' @ addr),
      blockchainAccountId = Some (''eip155:1:'' @ addr),
      publicKeyBase64 = None,
      publicKeyHex = None\<rparr>"

text \<open>
  \<open>buildDidDocument\<close>. The wall clock \<open>Math.floor(Date.now() / 1000)\<close> that the function
  reads is the explicit first argument \<open>now\<close> (seconds).
\<close>

definition buildDidDocument ::
  "int \<Rightarrow> string \<Rightarrow> string option \<Rightarrow> Delegate list \<Rightarrow> Attribute list \<Rightarrow> DidDocument" where
  "buildDidDocument now addr ctrl delegates attributes =
     (let did = ''did:ethr:'' @ addr;
          validDelegates = filter (\<lambda>d. d_validTo d > now) delegates;
          validAttributes = filter (\<lambda>a. t_validTo a > now) attributes;
          acc0 = \<lparr>acc_vm = [controllerMethod addr ctrl],
                  acc_auth = [did @ ''#controller''],
                  acc_assert = [did @ ''#controller'']\<rparr>;
          acc1 = forEach (delegateStep did) 0 validDelegates acc0;
          svc = mapIndexed
                  (\<lambda>index attr. \<lparr>sv_id = did @ ''#service-'' @ decimal index,
                                   sv_type = replace (t_name attr) ''did/svc/'' [],
                                   serviceEndpoint = t_value attr\<rparr>)
                  0 (filter (\<lambda>attr. startsWith (t_name attr) ''did/svc/'') validAttributes);
          acc2 = forEach (keyStep did) 0
                   (filter (\<lambda>attr. startsWith (t_name attr) ''did/pub/'') validAttributes) acc1
      in \<lparr>doc_context = DID_CONTEXTS,
          doc_id = did,
          doc_controller =
            (if truthy ctrl \<and> toLowerCase (the ctrl) \<noteq> toLowerCase addr
             then Some (''did:ethr:'' @ the ctrl) else None),
          verificationMethod = acc_vm acc2,
          authentication = acc_auth acc2,
          assertionMethod = acc_assert acc2,
          service = (if length svc > 0 then Some svc else None)\<rparr>)"

section \<open>The store and the ledger adapter\<close>

text \<open>
  The four repositories the services are injected with. Tables are lists of rows in
  insertion order; the Identity table is keyed by its primary column \<open>address\<close>.
\<close>

record Store =
  eventRepository :: "Event list"
  identityRepository :: "string \<rightharpoonup> Identity"
  delegateRepository :: "Delegate list"
  attributeRepository :: "Attribute list"

text \<open>
  What a promise rejects with. A rejection of the provider carries the text the thrown value
  renders to; \<open>NoLatestBlock\<close> is the \<open>Error('Could not fetch latest block')\<close> of
  \<open>getBlockByTimestamp\<close>; \<open>ParseError\<close> is the \<open>SyntaxError\<close> of \<open>JSON.parse\<close>.
\<close>

datatype error = ProviderError string | NoLatestBlock | ParseError

text \<open>
  The rendering \<open>${error}\<close> of a caught value in a template string: for an \<open>Error\<close>, its name,
  a colon and its message. The one \<open>catch\<close> that renders its error is around the ledger
  lookups of \<open>verify\<close>; \<open>JSON.parse\<close> is called outside it, so that a \<open>ParseError\<close> is
  never rendered and has no equation.
\<close>

fun showError :: "error \<Rightarrow> string" where
  "showError (ProviderError rendered) = rendered"
| "showError NoLatestBlock = ''Error: Could not fetch latest block''"

record Block =
  number :: nat
  timestamp :: int

text \<open>
  The JSON-RPC provider: \<open>getBlock('latest')\<close> and \<open>getBlock(n)\<close>, each of which may reject
  (\<open>Inl\<close>) or resolve to a block or to null.
\<close>

record Provider =
  getLatest :: "error + Block option"
  getBlock :: "nat \<Rightarrow> error + Block option"

section \<open>Current-state resolution\<close>

definition resolve :: "int \<Rightarrow> Store \<Rightarrow> string \<Rightarrow> DidDocument" where
  "resolve now s did =
     (let addr = extractAddress did in
      case identityRepository s addr of
        None \<Rightarrow> buildDidDocument now addr None [] []
      | Some identity \<Rightarrow>
          buildDidDocument now addr (controller identity)
            (filter (\<lambda>d. d_identity d = Some addr) (delegateRepository s))
            (filter (\<lambda>a. t_identity a = Some addr) (attributeRepository s)))"

record OwnerInfo =
  oi_did :: string
  oi_owner :: string
  isSelfOwned :: bool

definition getOwner :: "Store \<Rightarrow> string \<Rightarrow> OwnerInfo" where
  "getOwner s did =
     (let addr = extractAddress did;
          ctrl = (case identityRepository s addr of None \<Rightarrow> None | Some i \<Rightarrow> controller i)
      in \<lparr>oi_did = ''did:ethr:'' @ addr,
          oi_owner = (if truthy ctrl then the ctrl else addr),
          isSelfOwned = (\<not> truthy ctrl \<or> ctrl = Some addr)\<rparr>)"

section \<open>The Block-Time Index\<close>

text \<open>The binary search loop of \<open>getBlockByTimestamp\<close>.\<close>

function search :: "(nat \<Rightarrow> error + Block option) \<Rightarrow> int \<Rightarrow> nat \<Rightarrow> nat \<Rightarrow> error + nat" where
  "search gb targetTime low high =
     (if low < high then
        (let mid = (low + high) div 2 in
         case gb mid of
           Inl e \<Rightarrow> Inl e
         | Inr None \<Rightarrow> search gb targetTime low mid
         | Inr (Some block) \<Rightarrow>
             if timestamp block < targetTime then search gb targetTime (mid + 1) high
             else search gb targetTime low mid)
      else Inr low)"
  by pat_completeness auto
termination
  by (relation "measure (\<lambda>(gb, targetTime, low, high). high - low)") auto

declare search.simps [simp del]

text \<open>
  \<open>getBlockByTimestamp\<close>; the \<open>Date\<close> argument is its \<open>getTime()\<close>, milliseconds since the
  epoch.
\<close>

definition getBlockByTimestamp :: "Provider \<Rightarrow> int \<Rightarrow> error + nat" where
  "getBlockByTimestamp provider time =
     (let targetTime = time div 1000 in
      case getLatest provider of
        Inl e \<Rightarrow> Inl e
      | Inr None \<Rightarrow> Inl NoLatestBlock
      | Inr (Some latestBlock) \<Rightarrow> search (getBlock provider) targetTime 0 (number latestBlock))"

section \<open>Historical resolution\<close>

text \<open>
  \<open>eventRepository.find\<close> with a where clause and \<open>order: {blockNumber, id}\<close>, ascending;
  the descending order is its reverse (ids are the primary key, so the order is strict).
\<close>

definition findAsc :: "(Event \<Rightarrow> bool) \<Rightarrow> Event list \<Rightarrow> Event list" where
  "findAsc wh tbl = sort_key (\<lambda>e. (blockNumber e, e_id e)) (filter wh tbl)"

definition findDesc :: "(Event \<Rightarrow> bool) \<Rightarrow> Event list \<Rightarrow> Event list" where
  "findDesc wh tbl = rev (findAsc wh tbl)"

text \<open>\<open>args.identity?.toLowerCase() === address.toLowerCase()\<close>\<close>

definition identityIs :: "string \<Rightarrow> Event \<Rightarrow> bool" where
  "identityIs addr e =
     (case a_identity (args e) of None \<Rightarrow> False
      | Some i \<Rightarrow> toLowerCase i = toLowerCase addr)"

text \<open>
  The state of the replay loop. A JavaScript \<open>Map\<close> keeps its keys in the order of their
  first insertion and \<open>set\<close> on a present key replaces the value in place: an association
  list under \<open>AList.update\<close>.
\<close>

record Replay =
  r_owner :: "string option"
  delegatesMap :: "(string \<times> Delegate) list"
  attributesMap :: "(string \<times> Attribute) list"

definition delegateKey :: "string \<Rightarrow> string \<Rightarrow> string" where
  "delegateKey dtype delegate = dtype @ '':'' @ toLowerCase delegate"

definition replayEvent :: "Event \<Rightarrow> Replay \<Rightarrow> Replay" where
  "replayEvent event st =
     (if eventName event = ''DIDOwnerChanged'' then
        st\<lparr>r_owner := Some (toLowerCase (a_owner (args event)))\<rparr>
      else if eventName event = ''DIDDelegateChanged'' then
        st\<lparr>delegatesMap :=
             AList.update
               (delegateKey (a_delegateType (args event)) (a_delegate (args event)))
               \<lparr>d_id = None, d_identity = None,
                delegateType = a_delegateType (args event),
                delegateAddress = toLowerCase (a_delegate (args event)),
                d_validTo = a_validTo (args event)\<rparr>
               (delegatesMap st)\<rparr>
      else if eventName event = ''DIDAttributeChanged'' then
        st\<lparr>attributesMap :=
             AList.update (a_name (args event))
               \<lparr>t_id = None, t_identity = None,
                t_name = a_name (args event),
                t_value = a_value (args event),
                t_validTo = a_validTo (args event)\<rparr>
               (attributesMap st)\<rparr>
      else st)"

text \<open>The \<open>for\<close> loop with its \<open>break\<close> on the first event beyond \<open>maxBlock\<close>.\<close>

fun replayLoop :: "nat \<Rightarrow> Event list \<Rightarrow> Replay \<Rightarrow> Replay" where
  "replayLoop maxBlock [] st = st"
| "replayLoop maxBlock (event # rest) st =
     (if blockNumber event > maxBlock then st
      else replayLoop maxBlock rest (replayEvent event st))"

record HistoricalState =
  h_owner :: "string option"
  h_delegates :: "Delegate list"
  h_attributes :: "Attribute list"

definition reconstructStateFromEvents :: "string \<Rightarrow> Event list \<Rightarrow> nat \<Rightarrow> HistoricalState" where
  "reconstructStateFromEvents addr events maxBlock =
     (let st = replayLoop maxBlock events
                 \<lparr>r_owner = None, delegatesMap = [], attributesMap = []\<rparr>
      in \<lparr>h_owner = r_owner st,
          h_delegates = map snd (delegatesMap st),
          h_attributes = map snd (attributesMap st)\<rparr>)"

text \<open>
  The first half of \<open>resolveAtBlock\<close>: the query, the filter on the identity and the
  replay. \<open>resolveAtBlock\<close> hands the result to the document builder.
\<close>

definition historicalState :: "Store \<Rightarrow> string \<Rightarrow> nat \<Rightarrow> HistoricalState" where
  "historicalState s did bn =
     (let addr = extractAddress did;
          events = findAsc (\<lambda>e. blockNumber e \<le> bn) (eventRepository s);
          identityEvents = filter (identityIs addr) events
      in reconstructStateFromEvents addr identityEvents bn)"

definition resolveAtBlock :: "int \<Rightarrow> Store \<Rightarrow> string \<Rightarrow> nat \<Rightarrow> DidDocument" where
  "resolveAtBlock now s did bn =
     (let addr = extractAddress did;
          hs = historicalState s did bn
      in buildDidDocument now addr (h_owner hs) (h_delegates hs) (h_attributes hs))"

definition resolveAtTime :: "int \<Rightarrow> Provider \<Rightarrow> Store \<Rightarrow> string \<Rightarrow> int \<Rightarrow> error + DidDocument" where
  "resolveAtTime now provider s did time =
     (case getBlockByTimestamp provider time of
        Inl e \<Rightarrow> Inl e
      | Inr bn \<Rightarrow> Inr (resolveAtBlock now s did bn))"

text \<open>The loop of \<open>getOwnerAtBlock\<close>: the first owner change of the identity, if any.\<close>

fun firstOwner :: "string \<Rightarrow> Event list \<Rightarrow> string option" where
  "firstOwner addr [] = None"
| "firstOwner addr (event # rest) =
     (if identityIs addr event then Some (toLowerCase (a_owner (args event)))
      else firstOwner addr rest)"

definition getOwnerAtBlock :: "Store \<Rightarrow> string \<Rightarrow> nat \<Rightarrow> string" where
  "getOwnerAtBlock s did bn =
     (let addr = extractAddress did;
          ownerEvents = findDesc (\<lambda>e. eventName e = ''DIDOwnerChanged'' \<and> blockNumber e \<le> bn)
                          (eventRepository s)
      in case firstOwner addr ownerEvents of
           Some ownr \<Rightarrow> ownr
         | None \<Rightarrow> toLowerCase addr)"

definition getOwnerAtTime :: "Provider \<Rightarrow> Store \<Rightarrow> string \<Rightarrow> int \<Rightarrow> error + string" where
  "getOwnerAtTime provider s did time =
     (case getBlockByTimestamp provider time of
        Inl e \<Rightarrow> Inl e
      | Inr bn \<Rightarrow> Inr (getOwnerAtBlock s did bn))"

text \<open>The delegate loop of \<open>wasValidSignerAtBlock\<close>: a map from key to validTo.\<close>

fun delegateLoop :: "string \<Rightarrow> Event list \<Rightarrow> (string \<times> int) list \<Rightarrow> (string \<times> int) list" where
  "delegateLoop addr [] delegateState = delegateState"
| "delegateLoop addr (event # rest) delegateState =
     (if \<not> identityIs addr event then delegateLoop addr rest delegateState
      else delegateLoop addr rest
             (AList.update
                (delegateKey (a_delegateType (args event)) (a_delegate (args event)))
                (a_validTo (args event)) delegateState))"

text \<open>
  \<open>const [, delegateAddr] = key.split(':')\<close> takes the second segment (undefined when there
  is none), and the test \<open>delegateAddr === signer && validTo > blockTimestamp\<close>.
\<close>

definition delegateHit :: "string \<Rightarrow> int \<Rightarrow> string \<times> int \<Rightarrow> bool" where
  "delegateHit signer blockTimestamp kv =
     (case split CHR '':'' (fst kv) of
        _ # delegateAddr # _ \<Rightarrow> delegateAddr = signer \<and> snd kv > blockTimestamp
      | _ \<Rightarrow> False)"

definition wasValidSignerAtBlock :: "Provider \<Rightarrow> Store \<Rightarrow> string \<Rightarrow> string \<Rightarrow> nat \<Rightarrow> error + bool" where
  "wasValidSignerAtBlock provider s did signerAddress bn =
     (let addr = extractAddress did;
          signer = toLowerCase signerAddress;
          ownerAtBlock = getOwnerAtBlock s did bn
      in if ownerAtBlock = signer then Inr True
         else
           (let events = findAsc (\<lambda>e. eventName e = ''DIDDelegateChanged'' \<and> blockNumber e \<le> bn)
                           (eventRepository s);
                delegateState = delegateLoop addr events []
            in case getBlock provider bn of
                 Inl e \<Rightarrow> Inl e
               | Inr None \<Rightarrow> Inr False
               | Inr (Some block) \<Rightarrow>
                   Inr (list_ex (delegateHit signer (timestamp block)) delegateState)))"

definition wasValidSignerAtTime :: "Provider \<Rightarrow> Store \<Rightarrow> string \<Rightarrow> string \<Rightarrow> int \<Rightarrow> error + bool" where
  "wasValidSignerAtTime provider s did signerAddress time =
     (case getBlockByTimestamp provider time of
        Inl e \<Rightarrow> Inl e
      | Inr bn \<Rightarrow> wasValidSignerAtBlock provider s did signerAddress bn)"

section \<open>The credential verifier\<close>

datatype CredentialStatus = ACTIVE | REVOKED | EXPIRED

record Credential =
  c_id :: string
  c_issuer :: string
  c_subject :: string
  c_type :: "string list"
  c_claims :: "(string \<times> string) list"
  c_issuanceDate :: string
  c_expirationDate :: "string option"
  c_status :: CredentialStatus
  c_proof :: string

record CredentialProof =
  p_type :: string
  p_created :: string
  p_verificationMethod :: string
  p_proofPurpose :: string
  proofValue :: string

record CredentialPayload =
  cp_context :: "string list"
  cp_type :: "string list"
  cp_issuer :: string
  cp_issuanceDate :: string
  cp_expirationDate :: "string option"
  cp_credentialSubject :: "(string \<times> string) list"

record CredentialStatusRef =
  cs_id :: string
  cs_type :: string

record VerifiableCredential =
  vc_context :: "string list"
  vc_id :: string
  vc_type :: "string list"
  vc_issuer :: string
  vc_issuanceDate :: string
  vc_expirationDate :: "string option"
  vc_credentialSubject :: "(string \<times> string) list"
  vc_credentialStatus :: CredentialStatusRef
  vc_proof :: CredentialProof

text \<open>
  What the credential service takes from its environment: the signature recovery of the
  ethers library (\<open>None\<close> when it throws), the JSON serialiser and parser (\<open>None\<close> when the
  parser throws), the parser of ISO dates (milliseconds since the epoch), the URI encoder,
  the configured base URL and the wall clock \<open>new Date()\<close> in milliseconds.
\<close>

record Env =
  verifyMessage :: "string \<Rightarrow> string \<Rightarrow> string option"
  JSON_stringify :: "CredentialPayload \<Rightarrow> string"
  JSON_parse :: "string \<Rightarrow> CredentialProof option"
  Date_parse :: "string \<Rightarrow> int"
  encodeURIComponent :: "string \<Rightarrow> string"
  apiBaseUrl :: string
  nowMs :: int

definition VC_CONTEXTS :: "string list" where
  "VC_CONTEXTS =
     [''https://www.w3.org/2018/credentials/v1'',
      ''https://w3id.org/security/suites/secp256k1-2019/v1'']"

text \<open>\<open>credential.expirationDate || undefined\<close>\<close>

definition orUndefined :: "string option \<Rightarrow> string option" where
  "orUndefined v = (if truthy v then v else None)"

text \<open>The object \<open>{id: subject, ...claims}\<close>: later keys overwrite in place.\<close>

definition subjectWithClaims :: "string \<Rightarrow> (string \<times> string) list \<Rightarrow> (string \<times> string) list" where
  "subjectWithClaims subject claims =
     fold (\<lambda>kv obj. AList.update (fst kv) (snd kv) obj) claims [(''id'', subject)]"

definition toVerifiableCredential :: "Env \<Rightarrow> Credential \<Rightarrow> error + VerifiableCredential" where
  "toVerifiableCredential env credential =
     (case JSON_parse env (c_proof credential) of
        None \<Rightarrow> Inl ParseError
      | Some proof \<Rightarrow>
          (let credentialId = ''urn:uuid:'' @ c_id credential in
           Inr \<lparr>vc_context = VC_CONTEXTS,
                vc_id = credentialId,
                vc_type = c_type credential,
                vc_issuer = c_issuer credential,
                vc_issuanceDate = c_issuanceDate credential,
                vc_expirationDate = orUndefined (c_expirationDate credential),
                vc_credentialSubject =
                  subjectWithClaims (c_subject credential) (c_claims credential),
                vc_credentialStatus =
                  \<lparr>cs_id = apiBaseUrl env @ ''/api/credentials/'' @
                            encodeURIComponent env credentialId @ ''/status'',
                   cs_type = ''CredentialStatusList2021''\<rparr>,
                vc_proof = proof\<rparr>))"

record Checks =
  signature :: bool
  signerValidAtIssuance :: bool
  notExpired :: bool
  notRevoked :: bool

record Details =
  recoveredAddress :: string
  issuerDid :: string
  dt_issuanceDate :: string
  ownerAtIssuance :: string
  wasValidSigner :: bool

record VerifyResult =
  valid :: bool
  checks :: Checks
  vr_credential :: "VerifiableCredential option"
  vr_error :: "string option"
  details :: "Details option"

datatype LogLine = LogInfo string | LogWarn string

definition showBool :: "bool \<Rightarrow> string" where
  "showBool b = (if b then ''true'' else ''false'')"

text \<open>
  Check 3 of \<open>verify\<close>, the \<open>try\<close> block that recovers the signer: the pair of
  \<open>signatureValid\<close> and \<open>recoveredAddress\<close> as the block leaves them.
\<close>

definition checkSignature :: "Env \<Rightarrow> Credential \<Rightarrow> CredentialProof \<Rightarrow> bool \<times> string" where
  "checkSignature env credential proof =
     (let credentialPayload =
            \<lparr>cp_context = VC_CONTEXTS,
             cp_type = c_type credential,
             cp_issuer = c_issuer credential,
             cp_issuanceDate = c_issuanceDate credential,
             cp_expirationDate = orUndefined (c_expirationDate credential),
             cp_credentialSubject =
               subjectWithClaims (c_subject credential) (c_claims credential)\<rparr>;
          message = JSON_stringify env credentialPayload
      in case verifyMessage env message (proofValue proof) of
           None \<Rightarrow> (False, [])
         | Some recovered \<Rightarrow>
             (let issuerAddress = last (split CHR '':'' (c_issuer credential))
              in (toLowerCase recovered = toLowerCase issuerAddress, recovered)))"

text \<open>
  Check 4 of \<open>verify\<close>, the time-based check with its \<open>catch\<close>: the triple of
  \<open>ownerAtIssuance\<close>, \<open>signerValidAtIssuance\<close> and the lines written to the logger.
\<close>

definition checkAuthority ::
  "Env \<Rightarrow> Provider \<Rightarrow> Store \<Rightarrow> Credential \<Rightarrow> bool \<Rightarrow> string \<Rightarrow> string \<times> bool \<times> LogLine list" where
  "checkAuthority env provider s credential signatureValid recovered =
     (let issuanceDate = Date_parse env (c_issuanceDate credential) in
      if recovered = [] then ([], False, [])
      else
        case getOwnerAtTime provider s (c_issuer credential) issuanceDate of
          Inl e \<Rightarrow>
            ([], signatureValid,
             [LogWarn (''Could not perform time-based verification: '' @ showError e)])
        | Inr ownr \<Rightarrow>
            (case wasValidSignerAtTime provider s (c_issuer credential) recovered issuanceDate of
               Inl e \<Rightarrow>
                 (ownr, signatureValid,
                  [LogWarn (''Could not perform time-based verification: '' @ showError e)])
             | Inr ok \<Rightarrow>
                 (ownr, ok,
                  [LogInfo (''Time-based verification for '' @ c_issuer credential @
                            '': recovered='' @ recovered @ '', ownerAtIssuance='' @ ownr @
                            '', wasValidSigner='' @ showBool ok)])))"

text \<open>
  \<open>verify\<close>. The credential table is a map from uuid to row. The result is the list of
  logger lines and either the returned object or the error the promise rejects with.
\<close>

definition verify ::
  "Env \<Rightarrow> Provider \<Rightarrow> Store \<Rightarrow> (string \<rightharpoonup> Credential) \<Rightarrow> string
     \<Rightarrow> LogLine list \<times> (error + VerifyResult)" where
  "verify env provider s credentialRepository credentialId =
     (let uuid = replace credentialId ''urn:uuid:'' [] in
      case credentialRepository uuid of
        None \<Rightarrow>
          ([], Inr \<lparr>valid = False,
                    checks = \<lparr>signature = False, signerValidAtIssuance = False,
                              notExpired = False, notRevoked = False\<rparr>,
                    vr_credential = None,
                    vr_error = Some ''Credential not found'',
                    details = None\<rparr>)
      | Some credential \<Rightarrow>
          (case JSON_parse env (c_proof credential) of
             None \<Rightarrow> ([], Inl ParseError)
           | Some proof \<Rightarrow>
               (let notRevokedV = (c_status credential = ACTIVE);
                    notExpiredV =
                      (if truthy (c_expirationDate credential)
                       then Date_parse env (the (c_expirationDate credential)) > nowMs env
                       else True);
                    sig = checkSignature env credential proof;
                    signatureValid = fst sig;
                    recovered = snd sig;
                    auth = checkAuthority env provider s credential signatureValid recovered;
                    ownr = fst auth;
                    signerValid = fst (snd auth);
                    logs = snd (snd auth);
                    validV = (signatureValid \<and> signerValid \<and> notExpiredV \<and> notRevokedV);
                    result = (\<lambda>vc.
                      \<lparr>valid = validV,
                       checks = \<lparr>signature = signatureValid, signerValidAtIssuance = signerValid,
                                 notExpired = notExpiredV, notRevoked = notRevokedV\<rparr>,
                       vr_credential = vc,
                       vr_error = None,
                       details = Some \<lparr>recoveredAddress = recovered,
                                       issuerDid = c_issuer credential,
                                       dt_issuanceDate = c_issuanceDate credential,
                                       ownerAtIssuance = ownr,
                                       wasValidSigner = signerValid\<rparr>\<rparr>)
                in if validV then
                     (case toVerifiableCredential env credential of
                        Inl e \<Rightarrow> (logs, Inl e)
                      | Inr vc \<Rightarrow> (logs, Inr (result (Some vc))))
                   else (logs, Inr (result None)))))"

section \<open>The event ingestion handlers\<close>

text \<open>
  What the handlers take from the ethers library: the decoder of bytes32 strings and the
  UTF-8 decoder (\<open>None\<close> when they throw) and \<open>hexlify\<close>.
\<close>

record Ethers =
  decodeBytes32String :: "string \<Rightarrow> string option"
  toUtf8String :: "string \<Rightarrow> string option"
  hexlify :: "string \<Rightarrow> string"

text \<open>The ledger log entry an event arrives with.\<close>

record TxLog =
  l_transactionHash :: string
  l_blockNumber :: nat

text \<open>The next value of a \<open>PrimaryGeneratedColumn\<close>: above every id in the table.\<close>

definition nextId :: "nat list \<Rightarrow> nat" where
  "nextId ids = Suc (fold max ids 0)"

definition noArgs :: EventArgs where
  "noArgs = \<lparr>a_identity = None, a_owner = [], a_delegateType = [], a_delegate = [],
             a_name = [], a_value = [], a_validTo = 0, a_previousChange = []\<rparr>"

text \<open>\<open>eventRepository.save\<close> of an object without id: a new row.\<close>

definition saveEvent :: "TxLog \<Rightarrow> string \<Rightarrow> EventArgs \<Rightarrow> Store \<Rightarrow> Store" where
  "saveEvent lg name a s =
     s\<lparr>eventRepository := eventRepository s @
          [\<lparr>e_id = nextId (map e_id (eventRepository s)),
            transactionHash = l_transactionHash lg,
            blockNumber = l_blockNumber lg,
            eventName = name,
            args = a\<rparr>]\<rparr>"

text \<open>
  The handlers' \<open>try\<close> blocks catch and log what the repositories throw; the repositories
  of the model do not fail. The broadcast to the WebSocket gateway that ends each handler
  writes nothing to the store and is left out.
\<close>

definition handleOwnerChanged :: "string \<Rightarrow> string \<Rightarrow> nat \<Rightarrow> TxLog \<Rightarrow> Store \<Rightarrow> Store" where
  "handleOwnerChanged identity ownr previousChange lg s =
     (let s1 = saveEvent lg ''DIDOwnerChanged''
                 (noArgs\<lparr>a_identity := Some identity, a_owner := ownr,
                         a_previousChange := decimal previousChange\<rparr>) s;
          identityEntity =
            (case identityRepository s1 (toLowerCase identity) of
               None \<Rightarrow> \<lparr>address = toLowerCase identity, controller = None\<rparr>
             | Some i \<Rightarrow> i)
      in s1\<lparr>identityRepository := (identityRepository s1)
              (address identityEntity \<mapsto> identityEntity\<lparr>controller := Some (toLowerCase ownr)\<rparr>)\<rparr>)"

text \<open>\<open>identityRepository.findOne\<close>, then \<open>save({address})\<close> when there is no row.\<close>

definition ensureIdentity :: "string \<Rightarrow> Store \<Rightarrow> Store" where
  "ensureIdentity identity s =
     (case identityRepository s (toLowerCase identity) of
        None \<Rightarrow> s\<lparr>identityRepository := (identityRepository s)
                    (toLowerCase identity \<mapsto> \<lparr>address = toLowerCase identity, controller = None\<rparr>)\<rparr>
      | Some i \<Rightarrow> s)"

text \<open>\<open>repository.save(entity)\<close> of a loaded row: the row with its id is replaced.\<close>

definition saveDelegate :: "Delegate \<Rightarrow> Delegate list \<Rightarrow> Delegate list" where
  "saveDelegate row tbl = map (\<lambda>r. if d_id r = d_id row then row else r) tbl"

definition saveAttribute :: "Attribute \<Rightarrow> Attribute list \<Rightarrow> Attribute list" where
  "saveAttribute row tbl = map (\<lambda>r. if t_id r = t_id row then row else r) tbl"

text \<open>
  ``Find existing delegate or create new one'': \<open>findOne\<close> on identity, type and address,
  then the update of the row found or the insertion of a new row.
\<close>

definition upsertDelegate :: "string \<Rightarrow> string \<Rightarrow> string \<Rightarrow> int \<Rightarrow> Delegate list \<Rightarrow> Delegate list" where
  "upsertDelegate identity delegateTypeStr delegate validTo tbl =
     (case find (\<lambda>r. d_identity r = Some (toLowerCase identity)
                        \<and> delegateType r = delegateTypeStr
                        \<and> delegateAddress r = toLowerCase delegate) tbl of
        Some delegateEntity \<Rightarrow> saveDelegate (delegateEntity\<lparr>d_validTo := validTo\<rparr>) tbl
      | None \<Rightarrow>
          tbl @ [\<lparr>d_id = Some (nextId (map (\<lambda>r. case d_id r of Some i \<Rightarrow> i | None \<Rightarrow> 0) tbl)),
                  d_identity = Some (toLowerCase identity),
                  delegateType = delegateTypeStr,
                  delegateAddress = toLowerCase delegate,
                  d_validTo = validTo\<rparr>])"

definition upsertAttribute :: "string \<Rightarrow> string \<Rightarrow> string \<Rightarrow> int \<Rightarrow> Attribute list \<Rightarrow> Attribute list" where
  "upsertAttribute identity nameStr valueStr validTo tbl =
     (case find (\<lambda>r. t_identity r = Some (toLowerCase identity) \<and> t_name r = nameStr) tbl of
        Some attributeEntity \<Rightarrow>
          saveAttribute (attributeEntity\<lparr>t_value := valueStr, t_validTo := validTo\<rparr>) tbl
      | None \<Rightarrow>
          tbl @ [\<lparr>t_id = Some (nextId (map (\<lambda>r. case t_id r of Some i \<Rightarrow> i | None \<Rightarrow> 0) tbl)),
                  t_identity = Some (toLowerCase identity),
                  t_name = nameStr,
                  t_value = valueStr,
                  t_validTo = validTo\<rparr>])"

definition handleDelegateChanged ::
  "Ethers \<Rightarrow> string \<Rightarrow> string \<Rightarrow> string \<Rightarrow> int \<Rightarrow> nat \<Rightarrow> TxLog \<Rightarrow> Store \<Rightarrow> Store" where
  "handleDelegateChanged eth identity dtype delegate validTo previousChange lg s =
     (let delegateTypeStr = (case decodeBytes32String eth dtype of Some d \<Rightarrow> d | None \<Rightarrow> dtype);
          s1 = saveEvent lg ''DIDDelegateChanged''
                 (noArgs\<lparr>a_identity := Some identity, a_delegateType := delegateTypeStr,
                         a_delegate := delegate, a_validTo := validTo,
                         a_previousChange := decimal previousChange\<rparr>) s;
          s2 = ensureIdentity identity s1
      in s2\<lparr>delegateRepository :=
              upsertDelegate identity delegateTypeStr delegate validTo (delegateRepository s2)\<rparr>)"

definition handleAttributeChanged ::
  "Ethers \<Rightarrow> string \<Rightarrow> string \<Rightarrow> string \<Rightarrow> int \<Rightarrow> nat \<Rightarrow> TxLog \<Rightarrow> Store \<Rightarrow> Store" where
  "handleAttributeChanged eth identity name val validTo previousChange lg s =
     (let nameStr = (case decodeBytes32String eth name of Some n \<Rightarrow> n | None \<Rightarrow> name);
          s1 = saveEvent lg ''DIDAttributeChanged''
                 (noArgs\<lparr>a_identity := Some identity, a_name := nameStr,
                         a_value := hexlify eth val, a_validTo := validTo,
                         a_previousChange := decimal previousChange\<rparr>) s;
          s2 = ensureIdentity identity s1;
          valueStr = (case toUtf8String eth val of Some v \<Rightarrow> v | None \<Rightarrow> hexlify eth val)
      in s2\<lparr>attributeRepository :=
              upsertAttribute identity nameStr valueStr validTo (attributeRepository s2)\<rparr>)"

text \<open>
  The typed events of the ledger as the listeners and \<open>syncFromBlock\<close> receive them, and
  their dispatch to the three handlers.
\<close>

datatype LedgerEvent =
    OwnerChanged string string nat TxLog
  | DelegateChanged string string string int nat TxLog
  | AttributeChanged string string string int nat TxLog

fun applyEvent :: "Ethers \<Rightarrow> LedgerEvent \<Rightarrow> Store \<Rightarrow> Store" where
  "applyEvent eth (OwnerChanged identity ownr previousChange lg) s =
     handleOwnerChanged identity ownr previousChange lg s"
| "applyEvent eth (DelegateChanged identity dtype delegate validTo previousChange lg) s =
     handleDelegateChanged eth identity dtype delegate validTo previousChange lg s"
| "applyEvent eth (AttributeChanged identity name val validTo previousChange lg) s =
     handleAttributeChanged eth identity name val validTo previousChange lg s"

section \<open>The replay as the design states it\<close>

text \<open>
  The reference the historical state is compared with: the events of one identity up to a
  position, in the order of (block number, row id), folded from the self-owned state with
  empty maps; an owner change overwrites the owner and a delegate or attribute change
  overwrites the entry of its key.
\<close>

record SpecState =
  s_owner :: string
  s_delegates :: "string \<times> string \<rightharpoonup> int"
  s_attributes :: "string \<rightharpoonup> string \<times> int"

definition spec_apply :: "Event \<Rightarrow> SpecState \<Rightarrow> SpecState" where
  "spec_apply e st =
     (if eventName e = ''DIDOwnerChanged'' then st\<lparr>s_owner := toLowerCase (a_owner (args e))\<rparr>
      else if eventName e = ''DIDDelegateChanged'' then
        st\<lparr>s_delegates := (s_delegates st)
             ((a_delegateType (args e), toLowerCase (a_delegate (args e))) \<mapsto> a_validTo (args e))\<rparr>
      else if eventName e = ''DIDAttributeChanged'' then
        st\<lparr>s_attributes := (s_attributes st)
             (a_name (args e) \<mapsto> (a_value (args e), a_validTo (args e)))\<rparr>
      else st)"

definition spec_eventsUpTo :: "string \<Rightarrow> nat \<Rightarrow> Event list \<Rightarrow> Event list" where
  "spec_eventsUpTo i P tbl =
     filter (\<lambda>e. identityIs i e \<and> blockNumber e \<le> P)
       (sort_key (\<lambda>e. (blockNumber e, e_id e)) tbl)"

definition spec_stateAt :: "string \<Rightarrow> nat \<Rightarrow> Event list \<Rightarrow> SpecState" where
  "spec_stateAt i P tbl =
     fold spec_apply (spec_eventsUpTo i P tbl)
       \<lparr>s_owner = i, s_delegates = Map.empty, s_attributes = Map.empty\<rparr>"

text \<open>The maps that a list of delegate rows and a list of attribute rows stand for.\<close>

definition delegateEntries :: "Delegate list \<Rightarrow> (string \<times> string \<rightharpoonup> int)" where
  "delegateEntries ds = map_of (map (\<lambda>d. ((delegateType d, delegateAddress d), d_validTo d)) ds)"

definition attributeEntries :: "Attribute list \<Rightarrow> (string \<rightharpoonup> string \<times> int)" where
  "attributeEntries ats = map_of (map (\<lambda>a. (t_name a, (t_value a, t_validTo a))) ats)"

text \<open>
  When a state of the replay loop stands for a state of the design: the owner, read with
  null as the identity itself, and the two JavaScript maps, whose string keys name the
  entries they hold.
\<close>

definition replayMatches :: "string \<Rightarrow> Replay \<Rightarrow> SpecState \<Rightarrow> bool" where
  "replayMatches addr st sp \<longleftrightarrow>
       (case r_owner st of None \<Rightarrow> addr | Some ownr \<Rightarrow> ownr) = s_owner sp
     \<and> list_all (\<lambda>kd. fst kd = delegateType (snd kd) @ '':'' @ delegateAddress (snd kd)
                      \<and> CHR '':'' \<notin> set (delegateAddress (snd kd))) (delegatesMap st)
     \<and> distinct (map fst (delegatesMap st))
     \<and> delegateEntries (map snd (delegatesMap st)) = s_delegates sp
     \<and> list_all (\<lambda>ka. fst ka = t_name (snd ka)) (attributesMap st)
     \<and> distinct (map fst (attributesMap st))
     \<and> attributeEntries (map snd (attributesMap st)) = s_attributes sp"

text \<open>
  When the delegate map of \<open>wasValidSignerAtBlock\<close> stands for the delegates of the design:
  every key is a type and an address around one colon, and looks up what the design holds
  for that type and address.
\<close>

definition delegateStateMatches :: "(string \<times> int) list \<Rightarrow> (string \<times> string \<rightharpoonup> int) \<Rightarrow> bool" where
  "delegateStateMatches ds m \<longleftrightarrow>
       list_all (\<lambda>kv. \<exists>t a. fst kv = t @ '':'' @ a \<and> CHR '':'' \<notin> set t \<and> CHR '':'' \<notin> set a) ds
     \<and> distinct (map fst ds)
     \<and> (\<forall>t a. CHR '':'' \<notin> set a \<longrightarrow> map_of ds (t @ '':'' @ a) = m (t, a))
     \<and> (\<forall>t a v. m (t, a) = Some v \<longrightarrow> CHR '':'' \<notin> set a)"

section \<open>Example ledgers and stores\<close>

text \<open>
  The identity X in lower case and as the ledger library prints it, a delegate D, an
  owner A, and the DID of X.
\<close>

definition idX :: string where
  "idX = ''0x5fbdb2315678afecb367f032d93f642f64180aa3''"

definition mixedX :: string where
  "mixedX = ''0x5FbDB2315678afecb367f032d93F642f64180aa3''"

definition delegateD :: string where
  "delegateD = ''0x70997970C51812dc3A010C7d01b50e0d17dc79C8''"

definition lowD :: string where
  "lowD = ''0x70997970c51812dc3a010c7d01b50e0d17dc79c8''"

definition ownerA :: string where
  "ownerA = ''0x3C44CdDdB6a900fa2b585dd299e03d12FA4293BC''"

definition lowA :: string where
  "lowA = ''0x3c44cdddb6a900fa2b585dd299e03d12fa4293bc''"

definition didX :: string where
  "didX = ''did:ethr:0x5fbdb2315678afecb367f032d93f642f64180aa3''"

definition emptyStore :: Store where
  "emptyStore = \<lparr>eventRepository = [], identityRepository = Map.empty,
                 delegateRepository = [], attributeRepository = []\<rparr>"

text \<open>A ledger whose block \<open>n\<close> carries the \<open>n\<close>-th timestamp of the list.\<close>

definition chainOf :: "int list \<Rightarrow> Provider" where
  "chainOf ts =
     \<lparr>getLatest = Inr (if ts = [] then None
                        else Some \<lparr>number = length ts - 1, timestamp = last ts\<rparr>),
      getBlock = (\<lambda>n. Inr (if n < length ts then Some \<lparr>number = n, timestamp = ts ! n\<rparr>
                            else None))\<rparr>"

text \<open>
  A provider that knows its head, block 0 of time 1000, and rejects every lookup of a block
  by number.
\<close>

definition rpcDown :: string where
  "rpcDown = ''Error: connect ECONNREFUSED 127.0.0.1:8545''"

definition flaky :: Provider where
  "flaky = \<lparr>getLatest = Inr (Some \<lparr>number = 0, timestamp = 1000\<rparr>),
            getBlock = (\<lambda>n. Inl (ProviderError rpcDown))\<rparr>"

text \<open>
  The store after \<open>DIDDelegateChanged(X, sigAuth, D, validTo = 2000)\<close> in block 5.
\<close>

definition delegateGrant :: Event where
  "delegateGrant =
     \<lparr>e_id = 1, transactionHash = ''0xt1'', blockNumber = 5,
      eventName = ''DIDDelegateChanged'',
      args = noArgs\<lparr>a_identity := Some mixedX, a_delegateType := ''sigAuth'',
                    a_delegate := delegateD, a_validTo := 2000, a_previousChange := ''0''\<rparr>\<rparr>"

definition grantedD :: Delegate where
  "grantedD = \<lparr>d_id = Some 1, d_identity = Some idX, delegateType = ''sigAuth'',
                delegateAddress = lowD, d_validTo = 2000\<rparr>"

definition storeC :: Store where
  "storeC =
     \<lparr>eventRepository = [delegateGrant],
      identityRepository = [idX \<mapsto> \<lparr>address = idX, controller = None\<rparr>],
      delegateRepository = [grantedD],
      attributeRepository = []\<rparr>"

text \<open>
  The store after \<open>DIDOwnerChanged(X, A)\<close> in block 0, and the same store when X has also
  named itself a delegate until time 2000.
\<close>

definition ownerChange :: Event where
  "ownerChange =
     \<lparr>e_id = 1, transactionHash = ''0xt0'', blockNumber = 0,
      eventName = ''DIDOwnerChanged'',
      args = noArgs\<lparr>a_identity := Some mixedX, a_owner := ownerA, a_previousChange := ''0''\<rparr>\<rparr>"

definition selfDelegation :: Event where
  "selfDelegation =
     \<lparr>e_id = 2, transactionHash = ''0xt2'', blockNumber = 0,
      eventName = ''DIDDelegateChanged'',
      args = noArgs\<lparr>a_identity := Some mixedX, a_delegateType := ''veriKey'',
                    a_delegate := mixedX, a_validTo := 2000, a_previousChange := ''0''\<rparr>\<rparr>"

definition storeOwnedByA :: Store where
  "storeOwnedByA =
     \<lparr>eventRepository = [ownerChange],
      identityRepository = [idX \<mapsto> \<lparr>address = idX, controller = Some lowA\<rparr>],
      delegateRepository = [],
      attributeRepository = []\<rparr>"

definition storeSelfDelegated :: Store where
  "storeSelfDelegated =
     \<lparr>eventRepository = [ownerChange, selfDelegation],
      identityRepository = [idX \<mapsto> \<lparr>address = idX, controller = Some lowA\<rparr>],
      delegateRepository =
        [\<lparr>d_id = Some 1, d_identity = Some idX, delegateType = ''veriKey'',
          delegateAddress = idX, d_validTo = 2000\<rparr>],
      attributeRepository = []\<rparr>"

text \<open>
  A stand-in for what the credential service takes from its environment: a signature
  names its signer, and the proof column parses to a proof whose value is the column
  itself. The two dates are 1500 and 2500 seconds after the epoch; the clock stands at
  3000 seconds.
\<close>

definition demoEnv :: Env where
  "demoEnv =
     \<lparr>verifyMessage = (\<lambda>message sg.
         if sg = ''signed-by-X'' then Some mixedX
         else if sg = ''signed-by-D'' then Some delegateD else None),
      JSON_stringify = (\<lambda>payload. cp_issuer payload @ cp_issuanceDate payload),
      JSON_parse = (\<lambda>text. if text = [] then None else
         Some \<lparr>p_type = ''EcdsaSecp256k1Signature2019'', p_created = [],
               p_verificationMethod = [], p_proofPurpose = ''assertionMethod'',
               proofValue = text\<rparr>),
      Date_parse = (\<lambda>iso. if iso = ''1970-01-01T00:25:00.000Z'' then 1500000
                          else if iso = ''1970-01-01T00:41:40.000Z'' then 2500000 else 0),
      encodeURIComponent = (\<lambda>u. u),
      apiBaseUrl = ''http://localhost:3001'',
      nowMs = 3000000\<rparr>"

definition credentialBy :: "string \<Rightarrow> string \<Rightarrow> Credential" where
  "credentialBy sg issued =
     \<lparr>c_id = ''c1'', c_issuer = didX, c_subject = ''did:ethr:0xbb'',
      c_type = [''VerifiableCredential''], c_claims = [(''name'', ''Kim'')],
      c_issuanceDate = issued, c_expirationDate = None, c_status = ACTIVE, c_proof = sg\<rparr>"

definition credsBy :: "string \<Rightarrow> string \<Rightarrow> string \<rightharpoonup> Credential" where
  "credsBy sg issued = [''c1'' \<mapsto> credentialBy sg issued]"

text \<open>
  Two owner changes of X, to A in block 10 and to B in block 20, on a ledger whose block 10
  has time 1000 and whose block 20 has time 2000; the blocks between them follow block 10
  by a second each.
\<close>

definition ownerB :: string where
  "ownerB = ''0x90F79bf6EB2c4f870365E785982E1f101E93b906''"

definition lowB :: string where
  "lowB = ''0x90f79bf6eb2c4f870365e785982e1f101e93b906''"

definition ownerChangeA10 :: Event where
  "ownerChangeA10 =
     \<lparr>e_id = 1, transactionHash = ''0xt10'', blockNumber = 10,
      eventName = ''DIDOwnerChanged'',
      args = noArgs\<lparr>a_identity := Some mixedX, a_owner := ownerA, a_previousChange := ''0''\<rparr>\<rparr>"

definition ownerChangeB20 :: Event where
  "ownerChangeB20 =
     \<lparr>e_id = 2, transactionHash = ''0xt20'', blockNumber = 20,
      eventName = ''DIDOwnerChanged'',
      args = noArgs\<lparr>a_identity := Some mixedX, a_owner := ownerB, a_previousChange := ''10''\<rparr>\<rparr>"

definition storeB :: Store where
  "storeB =
     \<lparr>eventRepository = [ownerChangeA10, ownerChangeB20],
      identityRepository = [idX \<mapsto> \<lparr>address = idX, controller = Some lowB\<rparr>],
      delegateRepository = [],
      attributeRepository = []\<rparr>"

definition chainB :: "int list" where
  "chainB = [0, 100, 200, 300, 400, 500, 600, 700, 800, 900,
             1000, 1001, 1002, 1003, 1004, 1005, 1006, 1007, 1008, 1009,
             2000, 2001, 2002, 2003, 2004, 2005]"

text \<open>
  The log of X after the grant of block 5, its revocation in block 8 (validity cut to
  1200), a service attribute in block 9 and the owner change to A in block 10. The table
  holds the rows out of order, with a row of another identity between them.
\<close>

definition delegateRevoke :: Event where
  "delegateRevoke =
     \<lparr>e_id = 2, transactionHash = ''0xt8'', blockNumber = 8,
      eventName = ''DIDDelegateChanged'',
      args = noArgs\<lparr>a_identity := Some mixedX, a_delegateType := ''sigAuth'',
                    a_delegate := delegateD, a_validTo := 1200, a_previousChange := ''5''\<rparr>\<rparr>"

definition serviceSet :: Event where
  "serviceSet =
     \<lparr>e_id = 3, transactionHash = ''0xt9'', blockNumber = 9,
      eventName = ''DIDAttributeChanged'',
      args = noArgs\<lparr>a_identity := Some mixedX, a_name := ''did/svc/hub'',
                    a_value := ''https://hub.example'', a_validTo := 5000,
                    a_previousChange := ''8''\<rparr>\<rparr>"

definition otherOwnerChange :: Event where
  "otherOwnerChange =
     \<lparr>e_id = 4, transactionHash = ''0xt9b'', blockNumber = 9,
      eventName = ''DIDOwnerChanged'',
      args = noArgs\<lparr>a_identity := Some ownerB, a_owner := ownerA, a_previousChange := ''0''\<rparr>\<rparr>"

definition lateOwnerChange :: Event where
  "lateOwnerChange =
     \<lparr>e_id = 5, transactionHash = ''0xt10'', blockNumber = 10,
      eventName = ''DIDOwnerChanged'',
      args = noArgs\<lparr>a_identity := Some mixedX, a_owner := ownerA, a_previousChange := ''9''\<rparr>\<rparr>"

definition logR :: "Event list" where
  "logR = [lateOwnerChange, delegateRevoke, otherOwnerChange, delegateGrant, serviceSet]"

definition storeR :: Store where
  "storeR =
     \<lparr>eventRepository = logR,
      identityRepository = [idX \<mapsto> \<lparr>address = idX, controller = Some lowA\<rparr>],
      delegateRepository = [grantedD\<lparr>d_validTo := 1200\<rparr>],
      attributeRepository = []\<rparr>"

text \<open>The delegate grant of block 5 as the ledger delivers it.\<close>

definition demoEthers :: Ethers where
  "demoEthers = \<lparr>decodeBytes32String = (\<lambda>b. Some b), toUtf8String = (\<lambda>b. Some b),
                 hexlify = (\<lambda>b. b)\<rparr>"

definition grantEvent :: LedgerEvent where
  "grantEvent = DelegateChanged mixedX ''sigAuth'' delegateD 2000 0
                  \<lparr>l_transactionHash = ''0xt1'', l_blockNumber = 5\<rparr>"

text \<open>
  What \<open>verify\<close> returns on these stores: the credential signed by X in its W3C form,
  the result that accepts it, and the result for the credential signed by D.
\<close>

definition vcX :: VerifiableCredential where
  "vcX =
     \<lparr>vc_context = VC_CONTEXTS, vc_id = ''urn:uuid:c1'', vc_type = [''VerifiableCredential''],
      vc_issuer = didX, vc_issuanceDate = ''1970-01-01T00:25:00.000Z'',
      vc_expirationDate = None,
      vc_credentialSubject = [(''id'', ''did:ethr:0xbb''), (''name'', ''Kim'')],
      vc_credentialStatus =
        \<lparr>cs_id = ''http://localhost:3001/api/credentials/urn:uuid:c1/status'',
         cs_type = ''CredentialStatusList2021''\<rparr>,
      vc_proof = \<lparr>p_type = ''EcdsaSecp256k1Signature2019'', p_created = [],
                  p_verificationMethod = [], p_proofPurpose = ''assertionMethod'',
                  proofValue = ''signed-by-X''\<rparr>\<rparr>"

definition acceptedX :: VerifyResult where
  "acceptedX =
     \<lparr>valid = True,
      checks = \<lparr>signature = True, signerValidAtIssuance = True,
                notExpired = True, notRevoked = True\<rparr>,
      vr_credential = Some vcX, vr_error = None,
      details = Some \<lparr>recoveredAddress = mixedX, issuerDid = didX,
                      dt_issuanceDate = ''1970-01-01T00:25:00.000Z'',
                      ownerAtIssuance = lowA, wasValidSigner = True\<rparr>\<rparr>"

definition delegateSigned :: "string \<Rightarrow> bool \<Rightarrow> VerifyResult" where
  "delegateSigned issued authority =
     \<lparr>valid = False,
      checks = \<lparr>signature = False, signerValidAtIssuance = authority,
                notExpired = True, notRevoked = True\<rparr>,
      vr_credential = None, vr_error = None,
      details = Some \<lparr>recoveredAddress = delegateD, issuerDid = didX,
                      dt_issuanceDate = issued,
                      ownerAtIssuance = idX, wasValidSigner = authority\<rparr>\<rparr>"

section \<open>Strings: splitting and lowering\<close>

lemmas char_eval = char_of_def bit_Suc_0_iff bit_0

lemma split_not_Nil [simp]: "split c s \<noteq> []"
  by (induction s) (auto simp: Let_def)

lemma split_no_sep: "c \<notin> set a \<Longrightarrow> split c a = [a]"
  by (induction a) (auto simp: Let_def)

lemma length_split_Cons:
  "length (split c (x # xs)) = (if x = c then Suc (length (split c xs)) else length (split c xs))"
  by (cases "split c xs") (auto simp: Let_def)

lemma length_split_sep: "length (split c (p @ c # a)) > 1"
proof (induction p)
  case Nil
  then show ?case by (cases "split c a") (auto simp: Let_def)
next
  case (Cons x p)
  then show ?case by (simp only: append_Cons length_split_Cons split: if_splits) simp
qed

lemma last_split_sep: "c \<notin> set a \<Longrightarrow> last (split c (p @ c # a)) = a"
proof (induction p)
  case Nil
  then show ?case by (simp add: Let_def split_no_sep)
next
  case (Cons x p)
  let ?r = "split c (p @ c # a)"
  have "length ?r > 1" by (rule length_split_sep)
  then have "tl ?r \<noteq> []" by (cases ?r) auto
  then have "last ((x # hd ?r) # tl ?r) = last ?r"
    by (simp add: last_tl)
  with Cons show ?case by (simp add: Let_def)
qed

lemma lower_char_colon: "lower_char c = CHR '':'' \<Longrightarrow> c = CHR '':''"
proof -
  assume a: "lower_char c = CHR '':''"
  show ?thesis
  proof (cases "65 \<le> (of_char c :: nat) \<and> (of_char c :: nat) \<le> 90")
    case True
    then have "lower_char c = char_of ((of_char c :: nat) + 32)"
      by (simp add: lower_char_def)
    with a have "of_char (char_of ((of_char c :: nat) + 32)) = (of_char (CHR '':'') :: nat)"
      by simp
    with True show ?thesis by (simp add: mod_if split: if_splits)
  next
    case False
    with a show ?thesis by (simp add: lower_char_def)
  qed
qed

lemma colon_toLowerCase: "CHR '':'' \<in> set (toLowerCase s) \<longleftrightarrow> CHR '':'' \<in> set s"
proof
  assume "CHR '':'' \<in> set (toLowerCase s)"
  then obtain c where "c \<in> set s" "lower_char c = CHR '':''"
    by (auto simp: toLowerCase_def)
  then show "CHR '':'' \<in> set s" using lower_char_colon by blast
next
  assume "CHR '':'' \<in> set s"
  moreover have "lower_char (CHR '':'') = CHR '':''" by (simp add: lower_char_def)
  ultimately show "CHR '':'' \<in> set (toLowerCase s)"
    by (force simp: toLowerCase_def)
qed

lemma extractAddress_bare: "CHR '':'' \<notin> set a \<Longrightarrow> extractAddress a = toLowerCase a"
  by (simp add: extractAddress_def split_no_sep)

lemma extractAddress_prefixed:
  "CHR '':'' \<notin> set a \<Longrightarrow> extractAddress (p @ '':'' @ a) = toLowerCase a"
  using length_split_sep [of "CHR '':''" p a]
  by (simp add: extractAddress_def last_split_sep Let_def)

lemma lower_char_idem: "lower_char (lower_char c) = lower_char c"
proof (cases "65 \<le> (of_char c :: nat) \<and> (of_char c :: nat) \<le> 90")
  case True
  define d where "d = char_of ((of_char c :: nat) + 32)"
  have l: "lower_char c = d"
    using True by (simp add: lower_char_def d_def)
  have "(of_char d :: nat) = of_char c + 32"
    using True by (simp add: d_def)
  with True have "\<not> (65 \<le> (of_char d :: nat) \<and> (of_char d :: nat) \<le> 90)"
    by simp
  then have "lower_char d = d"
    by (auto simp: lower_char_def Let_def)
  with l show ?thesis by simp
next
  case False
  then have "lower_char c = c" by (auto simp: lower_char_def Let_def)
  then show ?thesis by simp
qed

lemma toLowerCase_idem: "toLowerCase (toLowerCase s) = toLowerCase s"
  by (simp add: toLowerCase_def lower_char_idem)

lemma extractAddress_lower: "toLowerCase (extractAddress did) = extractAddress did"
  by (simp add: extractAddress_def Let_def toLowerCase_idem)

text \<open>The strings of the examples, lowered and split once.\<close>

lemma strings_lower:
  "toLowerCase mixedX = idX" "toLowerCase idX = idX"
  "toLowerCase delegateD = lowD" "toLowerCase lowD = lowD"
  "toLowerCase ownerA = lowA" "toLowerCase lowA = lowA"
  "toLowerCase ownerB = lowB" "toLowerCase lowB = lowB"
  by (simp_all add: toLowerCase_def lower_char_def mixedX_def idX_def delegateD_def lowD_def
      ownerA_def lowA_def ownerB_def lowB_def char_eval)

lemma strings_split:
  "split CHR '':'' idX = [idX]" "split CHR '':'' lowD = [lowD]" "split CHR '':'' lowA = [lowA]"
  by (rule split_no_sep, simp add: idX_def lowD_def lowA_def)+

lemma strings_did: "extractAddress didX = idX" "last (split CHR '':'' didX) = idX"
  "extractAddress idX = idX"
    apply (simp_all add: extractAddress_def strings_split strings_lower)
    apply (simp_all add: didX_def idX_def toLowerCase_def lower_char_def)
  done

lemma strings_neq:
  "idX \<noteq> lowD" "idX \<noteq> lowA" "lowD \<noteq> lowA" "lowD \<noteq> idX" "lowA \<noteq> idX" "lowA \<noteq> lowD"
  "mixedX \<noteq> []" "delegateD \<noteq> []" "idX \<noteq> []" "lowA \<noteq> []" "lowD \<noteq> []"
  "lowA \<noteq> lowB" "lowB \<noteq> lowA" "idX \<noteq> lowB" "lowB \<noteq> idX"
  by (simp_all add: idX_def lowD_def lowA_def lowB_def mixedX_def delegateD_def)

lemmas strings_eval = strings_lower strings_split strings_did strings_neq

lemma extractAddress_mixedX: "extractAddress (''did:ethr:'' @ mixedX) = idX"
proof -
  have "CHR '':'' \<notin> set mixedX" by (simp add: mixedX_def)
  from extractAddress_prefixed [OF this, of "''did:ethr''"] show ?thesis
    by (simp add: strings_lower)
qed


section \<open>Identifier normalisation\<close>

lemma resolve_cong: "extractAddress d = extractAddress d' \<Longrightarrow> resolve now s d = resolve now s d'"
  by (simp add: resolve_def)

lemma getOwner_cong: "extractAddress d = extractAddress d' \<Longrightarrow> getOwner s d = getOwner s d'"
  by (simp add: getOwner_def)

lemma getOwnerAtBlock_cong:
  "extractAddress d = extractAddress d' \<Longrightarrow> getOwnerAtBlock s d bn = getOwnerAtBlock s d' bn"
  by (simp add: getOwnerAtBlock_def)

lemma wasValidSignerAtBlock_cong:
  "extractAddress d = extractAddress d' \<Longrightarrow>
   wasValidSignerAtBlock pr s d signer bn = wasValidSignerAtBlock pr s d' signer bn"
  by (simp add: wasValidSignerAtBlock_def getOwnerAtBlock_cong [of d d'])

lemma resolve_id: "doc_id (resolve now s d) = ''did:ethr:'' @ extractAddress d"
  by (simp add: resolve_def buildDidDocument_def Let_def split: option.splits)

lemma getOwner_did: "oi_did (getOwner s d) = ''did:ethr:'' @ extractAddress d"
  by (simp add: getOwner_def Let_def)

text \<open>
  C10. Let \<open>a\<close> be an address (a string without colon) and \<open>a'\<close> the same address in any
  letter case. For a DID \<open>d\<close> that is \<open>a'\<close> behind any colon-terminated prefix (\<open>did:ethr:\<close>
  in any case) or the bare \<open>a'\<close>, the address the services work with is \<open>a\<close> in lower
  case: it is what \<open>extractAddress\<close> returns and what \<open>resolve\<close> and \<open>getOwner\<close> put behind
  \<open>did:ethr:\<close> in the identifier they answer with; and \<open>resolve\<close>, \<open>getOwner\<close>,
  \<open>getOwnerAtBlock\<close> and \<open>wasValidSignerAtBlock\<close> give \<open>d\<close> the results of \<open>a\<close> itself
  and of \<open>a\<close> in lower case.
\<close>

theorem did_normalization:
  assumes "CHR '':'' \<notin> set a" and "toLowerCase a' = toLowerCase a"
    and "d = p @ '':'' @ a' \<or> d = a'"
  shows "extractAddress d = toLowerCase a
       \<and> doc_id (resolve now s d) = ''did:ethr:'' @ toLowerCase a
       \<and> oi_did (getOwner s d) = ''did:ethr:'' @ toLowerCase a
       \<and> resolve now s d = resolve now s a
       \<and> getOwner s d = getOwner s a
       \<and> getOwnerAtBlock s d bn = getOwnerAtBlock s a bn
       \<and> wasValidSignerAtBlock pr s d signer bn = wasValidSignerAtBlock pr s a signer bn
       \<and> resolve now s d = resolve now s (toLowerCase a)
       \<and> getOwner s d = getOwner s (toLowerCase a)
       \<and> getOwnerAtBlock s d bn = getOwnerAtBlock s (toLowerCase a) bn
       \<and> wasValidSignerAtBlock pr s d signer bn
           = wasValidSignerAtBlock pr s (toLowerCase a) signer bn"
proof -
  have "CHR '':'' \<notin> set a'"
    using assms(1,2) colon_toLowerCase [of a] colon_toLowerCase [of a'] by simp
  then have "extractAddress d = toLowerCase a'"
    using assms(3) extractAddress_bare extractAddress_prefixed by auto
  with assms(2) have n: "extractAddress d = toLowerCase a" by simp
  then have e: "extractAddress d = extractAddress a"
    using assms(1) by (simp add: extractAddress_bare)
  have "CHR '':'' \<notin> set (toLowerCase a)"
    using assms(1) by (simp add: colon_toLowerCase)
  then have "extractAddress (toLowerCase a) = toLowerCase a"
    by (simp add: extractAddress_bare toLowerCase_idem)
  with n have l: "extractAddress d = extractAddress (toLowerCase a)" by simp
  have i: "doc_id (resolve now s d) = ''did:ethr:'' @ toLowerCase a"
    "oi_did (getOwner s d) = ''did:ethr:'' @ toLowerCase a"
    by (simp_all only: resolve_id getOwner_did n)
  show ?thesis
    using n i resolve_cong [OF e] getOwner_cong [OF e] getOwnerAtBlock_cong [OF e]
      wasValidSignerAtBlock_cong [OF e] resolve_cong [OF l] getOwner_cong [OF l]
      getOwnerAtBlock_cong [OF l] wasValidSignerAtBlock_cong [OF l]
    by simp
qed

theorem did_normalization_witness:
  "CHR '':'' \<notin> set idX \<and> toLowerCase mixedX = toLowerCase idX
   \<and> extractAddress (''DID:Ethr'' @ '':'' @ mixedX) = idX
   \<and> doc_id (resolve 0 storeC (''DID:Ethr'' @ '':'' @ mixedX)) = ''did:ethr:'' @ idX
   \<and> oi_did (getOwner storeC (''DID:Ethr'' @ '':'' @ mixedX)) = ''did:ethr:'' @ idX
   \<and> resolve 0 storeC (''DID:Ethr'' @ '':'' @ mixedX) = resolve 0 storeC idX
   \<and> getOwner storeC (''DID:Ethr'' @ '':'' @ mixedX) = getOwner storeC idX
   \<and> getOwnerAtBlock storeC (''DID:Ethr'' @ '':'' @ mixedX) 7 = getOwnerAtBlock storeC idX 7
   \<and> wasValidSignerAtBlock (chainOf []) storeC (''DID:Ethr'' @ '':'' @ mixedX) delegateD 7
       = wasValidSignerAtBlock (chainOf []) storeC idX delegateD 7"
proof -
  have a: "CHR '':'' \<notin> set idX" by (simp add: idX_def)
  have b: "toLowerCase mixedX = toLowerCase idX" by (simp add: strings_lower)
  have c: "toLowerCase idX = idX" by (simp add: strings_lower)
  have d: "''DID:Ethr'' @ '':'' @ mixedX = ''DID:Ethr'' @ '':'' @ mixedX
           \<or> ''DID:Ethr'' @ '':'' @ mixedX = mixedX"
    by (rule disjI1) (rule refl)
  note t = did_normalization [where a = idX and a' = mixedX and p = "''DID:Ethr''"
        and d = "''DID:Ethr'' @ '':'' @ mixedX" and now = 0 and s = storeC and bn = 7
        and pr = "chainOf []" and signer = delegateD, OF a b d, unfolded c]
  from a b t show ?thesis by blast
qed

section \<open>Resolution of an identity without projection\<close>

text \<open>
  C8. When the Identity table has no row for the address of a DID, \<open>resolve\<close> returns (it
  has no failing branch) the document whose only verification method is the controller
  method, bound to the identity itself, and which names no other controller.
\<close>

theorem resolve_unknown_identity:
  assumes "identityRepository s (extractAddress did) = None"
  shows "resolve now s did =
           \<lparr>doc_context = DID_CONTEXTS,
            doc_id = ''did:ethr:'' @ extractAddress did,
            doc_controller = None,
            verificationMethod =
              [\<lparr>vm_id = ''did:ethr:'' @ extractAddress did @ ''#controller'',
                vm_type = ''EcdsaSecp256k1RecoveryMethod2020'',
                vm_controller = ''did:ethr:'' @ extractAddress did,
                blockchainAccountId = Some (''eip155:1:'' @ extractAddress did),
                publicKeyBase64 = None,
                publicKeyHex = None\<rparr>],
            authentication = [''did:ethr:'' @ extractAddress did @ ''#controller''],
            assertionMethod = [''did:ethr:'' @ extractAddress did @ ''#controller''],
            service = None\<rparr>
       \<and> length (verificationMethod (resolve now s did)) = 1"
  using assms by (simp add: resolve_def buildDidDocument_def controllerMethod_def truthy_def Let_def)

theorem resolve_unknown_identity_witness:
  "identityRepository emptyStore (extractAddress (''did:ethr:'' @ mixedX)) = None
   \<and> length (verificationMethod (resolve 0 emptyStore (''did:ethr:'' @ mixedX))) = 1
   \<and> vm_controller (hd (verificationMethod (resolve 0 emptyStore (''did:ethr:'' @ mixedX))))
       = ''did:ethr:'' @ idX"
proof -
  have h: "identityRepository emptyStore (extractAddress (''did:ethr:'' @ mixedX)) = None"
    by (simp add: emptyStore_def)
  note r = resolve_unknown_identity [OF h, of 0, unfolded extractAddress_mixedX]
  show ?thesis
    using h by (simp only: r) simp
qed

section \<open>Evaluated runs of verify\<close>

lemmas verify_eval = verify_def checkSignature_def checkAuthority_def toVerifiableCredential_def
  getOwnerAtTime_def wasValidSignerAtTime_def getBlockByTimestamp_def search.simps
  getOwnerAtBlock_def wasValidSignerAtBlock_def findAsc_def findDesc_def identityIs_def
  delegateKey_def delegateHit_def startsWith_def truthy_def orUndefined_def
  subjectWithClaims_def showBool_def VC_CONTEXTS_def noArgs_def

lemmas store_eval = demoEnv_def flaky_def chainOf_def storeOwnedByA_def storeSelfDelegated_def
  storeC_def grantedD_def credsBy_def credentialBy_def ownerChange_def selfDelegation_def
  delegateGrant_def storeB_def ownerChangeA10_def ownerChangeB20_def chainB_def

lemma run_flaky:
  "verify demoEnv flaky storeOwnedByA
     (credsBy ''signed-by-X'' ''1970-01-01T00:25:00.000Z'') ''urn:uuid:c1''
   = ([LogWarn (''Could not perform time-based verification: '' @ rpcDown)], Inr acceptedX)"
  by (simp add: verify_eval strings_eval store_eval acceptedX_def vcX_def)


lemma run_delegate_1500:
  "verify demoEnv (chainOf [0, 200, 400, 600, 800, 1000]) storeC
     (credsBy ''signed-by-D'' ''1970-01-01T00:25:00.000Z'') ''urn:uuid:c1''
   = ([LogInfo (''Time-based verification for '' @ didX @ '': recovered='' @ delegateD
                @ '', ownerAtIssuance='' @ idX @ '', wasValidSigner=true'')],
      Inr (delegateSigned ''1970-01-01T00:25:00.000Z'' True))"
  by (simp add: verify_eval strings_eval store_eval delegateSigned_def)



section \<open>The result of verify\<close>

text \<open>
  C7. For every credential identifier, provided the proof column of the credential it
  names (if any) parses, \<open>verify\<close> returns a result; the result carries the four checks,
  its \<open>valid\<close> flag is their conjunction, and for an unknown credential the four checks are
  false and the result says so.
\<close>

theorem verify_exposes_all_checks:
  assumes "case credentialRepository (replace credentialId ''urn:uuid:'' []) of
             None \<Rightarrow> True | Some c \<Rightarrow> JSON_parse env (c_proof c) \<noteq> None"
  shows "\<exists>r. snd (verify env provider s credentialRepository credentialId) = Inr r
           \<and> valid r = (signature (checks r) \<and> signerValidAtIssuance (checks r)
                         \<and> notExpired (checks r) \<and> notRevoked (checks r))
           \<and> (credentialRepository (replace credentialId ''urn:uuid:'' []) = None \<longrightarrow>
                \<not> valid r \<and> vr_error r = Some ''Credential not found''
                \<and> checks r = \<lparr>signature = False, signerValidAtIssuance = False,
                               notExpired = False, notRevoked = False\<rparr>)"
  using assms
  by (auto simp: verify_def toVerifiableCredential_def Let_def split: option.splits)

theorem verify_exposes_all_checks_witness:
  "\<exists>r. snd (verify demoEnv (chainOf [0, 200, 400, 600, 800, 1000]) storeC
              (credsBy ''signed-by-D'' ''1970-01-01T00:25:00.000Z'') ''urn:uuid:c1'') = Inr r
       \<and> valid r = (signature (checks r) \<and> signerValidAtIssuance (checks r)
                     \<and> notExpired (checks r) \<and> notRevoked (checks r))
       \<and> \<not> valid r \<and> \<not> signature (checks r) \<and> signerValidAtIssuance (checks r)"
proof -
  let ?repo = "credsBy ''signed-by-D'' ''1970-01-01T00:25:00.000Z''"
  have h: "case ?repo (replace ''urn:uuid:c1'' ''urn:uuid:'' []) of
             None \<Rightarrow> True | Some c \<Rightarrow> JSON_parse demoEnv (c_proof c) \<noteq> None"
    by (simp add: store_eval startsWith_def)
  from verify_exposes_all_checks
         [where credentialRepository = ?repo and credentialId = "''urn:uuid:c1''"
            and env = demoEnv and provider = "chainOf [0, 200, 400, 600, 800, 1000]"
            and s = storeC, OF h]
  obtain r where r: "snd (verify demoEnv (chainOf [0, 200, 400, 600, 800, 1000]) storeC ?repo
                            ''urn:uuid:c1'') = Inr r"
    "valid r = (signature (checks r) \<and> signerValidAtIssuance (checks r)
                 \<and> notExpired (checks r) \<and> notRevoked (checks r))"
    by blast
  from r(1) have "r = delegateSigned ''1970-01-01T00:25:00.000Z'' True"
    by (simp add: run_delegate_1500)
  then have "\<not> valid r" "\<not> signature (checks r)" "signerValidAtIssuance (checks r)"
    by (simp_all add: delegateSigned_def)
  with r show ?thesis by blast
qed

section \<open>The fallback of the authority check\<close>

lemma lookups_reject_alike:
  "getOwnerAtTime provider s did time = Inl e \<Longrightarrow>
   wasValidSignerAtTime provider s did signer time = Inl e"
  by (simp add: getOwnerAtTime_def wasValidSignerAtTime_def split: sum.splits)

lemma checkAuthority_rejected:
  assumes "recovered \<noteq> []"
    and "getOwnerAtTime provider s (c_issuer c) (Date_parse env (c_issuanceDate c)) = Inl e
         \<or> wasValidSignerAtTime provider s (c_issuer c) recovered
              (Date_parse env (c_issuanceDate c)) = Inl e"
  shows "snd (checkAuthority env provider s c signatureValid recovered)
           = (signatureValid,
              [LogWarn (''Could not perform time-based verification: '' @ showError e)])"
proof (cases "getOwnerAtTime provider s (c_issuer c) (Date_parse env (c_issuanceDate c))")
  case (Inl e')
  from lookups_reject_alike [OF Inl, of recovered] assms(2) Inl have "e' = e" by auto
  with Inl assms(1) show ?thesis by (simp add: checkAuthority_def Let_def)
next
  case (Inr ownr)
  with assms(2) have "wasValidSignerAtTime provider s (c_issuer c) recovered
              (Date_parse env (c_issuanceDate c)) = Inl e" by simp
  with Inr assms(1) show ?thesis by (simp add: checkAuthority_def Let_def)
qed




text \<open>
  What the \<open>catch\<close> block assigns. Its comment announces a verification against the
  current state; the value it assigns is the one of the signature check, and no current
  owner or delegate is read.
\<close>

lemma verify_fallback_value:
  assumes "credentialRepository (replace credentialId ''urn:uuid:'' []) = Some c"
    and "JSON_parse env (c_proof c) = Some proof"
    and "checkSignature env c proof = (signatureValid, recovered)"
    and "recovered \<noteq> []"
    and "getOwnerAtTime provider s (c_issuer c) (Date_parse env (c_issuanceDate c)) = Inl e
         \<or> wasValidSignerAtTime provider s (c_issuer c) recovered
              (Date_parse env (c_issuanceDate c)) = Inl e"
  shows "\<exists>r. snd (verify env provider s credentialRepository credentialId) = Inr r
           \<and> signerValidAtIssuance (checks r) = signature (checks r)
           \<and> signature (checks r)
                = (toLowerCase recovered = toLowerCase (last (split CHR '':'' (c_issuer c))))"
proof -
  have sv: "signatureValid
              = (toLowerCase recovered = toLowerCase (last (split CHR '':'' (c_issuer c))))"
    using assms(3,4) by (auto simp: checkSignature_def Let_def split: option.splits)
  note au = checkAuthority_rejected [OF assms(4,5), of signatureValid]
  show ?thesis
    using assms(1,2,3) sv au
    by (auto simp: verify_def toVerifiableCredential_def Let_def split: option.splits)
qed

text \<open>
  On this store A has owned X since block 0 and X has no delegate, so X holds no authority
  over its own identity in the current state; the degraded check accepts the credential
  that X signed all the same.
\<close>

lemma verify_fallback_ignores_current_state:
  "snd (verify demoEnv flaky storeOwnedByA
          (credsBy ''signed-by-X'' ''1970-01-01T00:25:00.000Z'') ''urn:uuid:c1'')
     = Inr acceptedX
   \<and> signerValidAtIssuance (checks acceptedX) \<and> valid acceptedX
   \<and> oi_owner (getOwner storeOwnedByA didX) = lowA
   \<and> toLowerCase mixedX \<noteq> lowA
   \<and> delegateRepository storeOwnedByA = []"
proof -
  have own: "oi_owner (getOwner storeOwnedByA didX) = lowA"
    "delegateRepository storeOwnedByA = []"
    by (simp_all add: getOwner_def storeOwnedByA_def truthy_def strings_eval)
  show ?thesis
    by (simp add: run_flaky own acceptedX_def strings_eval)
qed

section \<open>The order of the verification methods\<close>

lemma forEach_delegateStep_vm:
  "acc_vm (forEach (delegateStep did) i ds acc) = acc_vm acc @ mapIndexed (delegateMethod did) i ds"
  by (induction ds arbitrary: i acc) (simp_all add: delegateStep_def Let_def)

lemma forEach_keyStep_vm:
  "acc_vm (forEach (keyStep did) i ks acc) = acc_vm acc @ mapIndexed (keyMethod did) i ks"
  by (induction ks arbitrary: i acc) (simp_all add: keyStep_def Let_def)

lemma map_mapIndexed:
  assumes "\<And>n x. g (f n x) = h n"
  shows "map g (mapIndexed f i xs) = map h [i ..< i + length xs]"
proof (induction xs arbitrary: i)
  case Nil
  then show ?case by simp
next
  case (Cons x xs)
  have "[i ..< i + length (x # xs)] = i # [Suc i ..< Suc i + length xs]"
    by (simp del: upt_Suc add: upt_conv_Cons)
  then show ?case by (simp only: mapIndexed.simps list.map Cons.IH assms)
qed

lemma map_vm_id_delegates:
  "map vm_id (mapIndexed (delegateMethod did) i ds)
     = map (\<lambda>n. did @ ''#delegate-'' @ decimal n) [i ..< i + length ds]"
  by (rule map_mapIndexed) (simp add: delegateMethod_def)

lemma map_vm_id_keys:
  "map vm_id (mapIndexed (keyMethod did) i ks)
     = map (\<lambda>n. did @ ''#key-'' @ decimal n) [i ..< i + length ks]"
  by (rule map_mapIndexed) (simp add: keyMethod_def Let_def)

lemma decimal_0: "decimal 0 = ''0''"
  by (simp add: decimal.simps digit_char_def char_eval)

text \<open>
  C9, as the code has it. The document is a function of the builder's arguments and of the
  clock second \<open>now\<close> it reads. Its verification methods are the controller method, then
  one method per delegate still valid at \<open>now\<close>, in the order the delegates were given,
  then one method per valid attribute under \<open>did/pub/\<close>, in their order; the
  identifiers are \<open>#controller\<close>, \<open>#delegate-N\<close> and \<open>#key-N\<close> with \<open>N\<close> the position among
  the valid delegates and among the valid public-key attributes.
\<close>

theorem buildDidDocument_method_order:
  "(let did = ''did:ethr:'' @ addr;
        validDelegates = filter (\<lambda>d. d_validTo d > now) delegates;
        validKeys = filter (\<lambda>a. startsWith (t_name a) ''did/pub/'')
                      (filter (\<lambda>a. t_validTo a > now) attributes);
        doc = buildDidDocument now addr ctrl delegates attributes
    in verificationMethod doc
         = controllerMethod addr ctrl # mapIndexed (delegateMethod did) 0 validDelegates
             @ mapIndexed (keyMethod did) 0 validKeys
       \<and> map vm_id (verificationMethod doc)
         = (did @ ''#controller'')
             # map (\<lambda>n. did @ ''#delegate-'' @ decimal n) [0 ..< length validDelegates]
             @ map (\<lambda>n. did @ ''#key-'' @ decimal n) [0 ..< length validKeys])"
  by (simp add: buildDidDocument_def Let_def forEach_delegateStep_vm forEach_keyStep_vm
      map_vm_id_delegates map_vm_id_keys controllerMethod_def)

theorem buildDidDocument_method_order_witness:
  "map vm_id (verificationMethod (buildDidDocument 1000 idX None [grantedD] []))
     = [''did:ethr:'' @ idX @ ''#controller'', ''did:ethr:'' @ idX @ ''#delegate-0'']"
  using buildDidDocument_method_order
          [where now = 1000 and delegates = "[grantedD]" and attributes = "[]" and addr = idX
             and ctrl = None]
  by (simp add: Let_def grantedD_def decimal_0 controllerMethod_def delegateMethod_def)

text \<open>
  The claim as stated fails: the same arguments give two documents at two clock readings,
  one before and one after the delegate's validity ends.
\<close>

theorem buildDidDocument_reads_clock:
  "buildDidDocument 1000 idX None [grantedD] [] \<noteq> buildDidDocument 3000 idX None [grantedD] []"
proof
  assume "buildDidDocument 1000 idX None [grantedD] [] = buildDidDocument 3000 idX None [grantedD] []"
  then have "length (verificationMethod (buildDidDocument 1000 idX None [grantedD] []))
           = length (verificationMethod (buildDidDocument 3000 idX None [grantedD] []))"
    by simp
  then show False
    by (simp add: buildDidDocument_def Let_def grantedD_def forEach_delegateStep_vm)
qed

section \<open>The block an instant resolves to\<close>

text \<open>
  C4. On the ledger with block times 100, 200, 300 the instant 210 lies between blocks 1
  and 2: the position at or before it, and the closest to it, is block 1, and
  \<open>getBlockByTimestamp\<close> returns block 2, whose time is 300. On the ledger of the two
  owner changes the instant 1500 lies after block 19 (time 1009) and before block 20
  (time 2000): the search returns block 20, and the owner as of the instant 1500 comes out
  as B, the owner from block 20 on, where the owner at block 19 is A.
\<close>

theorem getBlockByTimestamp_returns_later_block:
  "getBlockByTimestamp (chainOf [100, 200, 300]) 210000 = Inr 2
   \<and> getBlock (chainOf [100, 200, 300]) 1 = Inr (Some \<lparr>number = 1, timestamp = 200\<rparr>)
   \<and> getBlock (chainOf [100, 200, 300]) 2 = Inr (Some \<lparr>number = 2, timestamp = 300\<rparr>)
   \<and> getBlock (chainOf chainB) 19 = Inr (Some \<lparr>number = 19, timestamp = 1009\<rparr>)
   \<and> getBlock (chainOf chainB) 20 = Inr (Some \<lparr>number = 20, timestamp = 2000\<rparr>)
   \<and> getBlockByTimestamp (chainOf chainB) 1500000 = Inr 20
   \<and> getOwnerAtTime (chainOf chainB) storeB didX 1500000 = Inr lowB
   \<and> getOwnerAtBlock storeB didX 19 = lowA"
  by (simp add: getOwnerAtTime_def getBlockByTimestamp_def search.simps getOwnerAtBlock_def
      findDesc_def findAsc_def identityIs_def noArgs_def store_eval strings_eval)

section \<open>The validity filter of a historical document\<close>

text \<open>
  C3. The delegate granted in block 5 until time 2000 is in the state replayed at block 5,
  and block 5 has time 1000, before the validity ends. The document \<open>resolveAtBlock\<close>
  builds for block 5 when the clock stands at 3000 has the controller method only: the
  builder filters against the clock, not against the time of block 5.
\<close>

theorem resolveAtBlock_filters_by_wall_clock:
  "h_delegates (historicalState storeC didX 5)
     = [\<lparr>d_id = None, d_identity = None, delegateType = ''sigAuth'',
         delegateAddress = lowD, d_validTo = 2000\<rparr>]
   \<and> getBlock (chainOf [0, 200, 400, 600, 800, 1000]) 5
     = Inr (Some \<lparr>number = 5, timestamp = 1000\<rparr>)
   \<and> verificationMethod (resolveAtBlock 3000 storeC didX 5) = [controllerMethod idX None]"
  by (simp add: resolveAtBlock_def historicalState_def reconstructStateFromEvents_def
      replayEvent_def buildDidDocument_def findAsc_def identityIs_def delegateKey_def
      store_eval strings_eval noArgs_def)

section \<open>Applying an event twice\<close>

lemma nextId_gt: "i \<in> set ids \<Longrightarrow> i < nextId ids"
proof -
  assume a: "i \<in> set ids"
  have "fold max ids 0 = Max (set (0 # ids))" by (simp only: Max.set_eq_fold)
  moreover have "i \<le> Max (set (0 # ids))" using a by (intro Max_ge) auto
  ultimately show ?thesis by (simp add: nextId_def)
qed

lemma find_append_None: "find P xs = None \<Longrightarrow> find P (xs @ ys) = find P ys"
  by (induction xs) (auto split: if_splits)

lemma find_saveDelegate:
  "find P tbl = Some r \<Longrightarrow> P r' \<Longrightarrow> d_id r' = d_id r \<Longrightarrow> find P (saveDelegate r' tbl) = Some r'"
  by (induction tbl) (auto simp: saveDelegate_def split: if_splits)

lemma saveDelegate_idem: "saveDelegate r (saveDelegate r tbl) = saveDelegate r tbl"
  by (simp add: saveDelegate_def)

lemma saveDelegate_fresh:
  "\<forall>x \<in> set tbl. d_id x \<noteq> d_id r \<Longrightarrow> saveDelegate r (tbl @ [r]) = tbl @ [r]"
  by (simp add: saveDelegate_def map_idI)

lemma upsertDelegate_idem:
  "upsertDelegate i t a v (upsertDelegate i t a v tbl) = upsertDelegate i t a v tbl"
proof -
  let ?P = "\<lambda>r. d_identity r = Some (toLowerCase i) \<and> delegateType r = t
                 \<and> delegateAddress r = toLowerCase a"
  show ?thesis
  proof (cases "find ?P tbl")
    case None
    let ?new = "\<lparr>d_id = Some (nextId (map (\<lambda>r. case d_id r of Some i \<Rightarrow> i | None \<Rightarrow> 0) tbl)),
                 d_identity = Some (toLowerCase i), delegateType = t,
                 delegateAddress = toLowerCase a, d_validTo = v\<rparr>"
    have u: "upsertDelegate i t a v tbl = tbl @ [?new]"
      using None by (simp add: upsertDelegate_def)
    have f: "find ?P (tbl @ [?new]) = Some ?new"
      using None by (simp add: find_append_None)
    have fresh: "\<forall>x \<in> set tbl. d_id x \<noteq> d_id ?new"
    proof
      fix x assume x: "x \<in> set tbl"
      show "d_id x \<noteq> d_id ?new"
      proof (cases "d_id x")
        case None
        then show ?thesis by simp
      next
        case (Some j)
        with x have "j \<in> set (map (\<lambda>r. case d_id r of Some i \<Rightarrow> i | None \<Rightarrow> 0) tbl)"
          by force
        from nextId_gt [OF this] Some show ?thesis by simp
      qed
    qed
    have "upsertDelegate i t a v (tbl @ [?new]) = saveDelegate ?new (tbl @ [?new])"
      using f by (simp add: upsertDelegate_def)
    also have "\<dots> = tbl @ [?new]" by (rule saveDelegate_fresh [OF fresh])
    finally show ?thesis by (simp add: u)
  next
    case (Some r)
    let ?r' = "r\<lparr>d_validTo := v\<rparr>"
    have u: "upsertDelegate i t a v tbl = saveDelegate ?r' tbl"
      using Some by (simp add: upsertDelegate_def)
    have "?P r" using Some by (auto simp: find_Some_iff)
    then have "?P ?r'" by simp
    from find_saveDelegate [OF Some, of ?r'] this
    have f: "find ?P (saveDelegate ?r' tbl) = Some ?r'" by simp
    have "upsertDelegate i t a v (saveDelegate ?r' tbl) = saveDelegate ?r' (saveDelegate ?r' tbl)"
      using f by (simp add: upsertDelegate_def)
    then show ?thesis by (simp add: u saveDelegate_idem)
  qed
qed


lemma find_saveAttribute:
  "find P tbl = Some r \<Longrightarrow> P r' \<Longrightarrow> t_id r' = t_id r \<Longrightarrow> find P (saveAttribute r' tbl) = Some r'"
  by (induction tbl) (auto simp: saveAttribute_def split: if_splits)

lemma saveAttribute_idem: "saveAttribute r (saveAttribute r tbl) = saveAttribute r tbl"
  by (simp add: saveAttribute_def)

lemma saveAttribute_fresh:
  "\<forall>x \<in> set tbl. t_id x \<noteq> t_id r \<Longrightarrow> saveAttribute r (tbl @ [r]) = tbl @ [r]"
  by (simp add: saveAttribute_def map_idI)

lemma upsertAttribute_idem:
  "upsertAttribute i n w v (upsertAttribute i n w v tbl) = upsertAttribute i n w v tbl"
proof -
  let ?P = "\<lambda>r. t_identity r = Some (toLowerCase i) \<and> t_name r = n"
  show ?thesis
  proof (cases "find ?P tbl")
    case None
    let ?new = "\<lparr>t_id = Some (nextId (map (\<lambda>r. case t_id r of Some i \<Rightarrow> i | None \<Rightarrow> 0) tbl)),
                 t_identity = Some (toLowerCase i), t_name = n, t_value = w, t_validTo = v\<rparr>"
    have u: "upsertAttribute i n w v tbl = tbl @ [?new]"
      using None by (simp add: upsertAttribute_def)
    have f: "find ?P (tbl @ [?new]) = Some ?new"
      using None by (simp add: find_append_None)
    have fresh: "\<forall>x \<in> set tbl. t_id x \<noteq> t_id ?new"
    proof
      fix x assume x: "x \<in> set tbl"
      show "t_id x \<noteq> t_id ?new"
      proof (cases "t_id x")
        case None
        then show ?thesis by simp
      next
        case (Some j)
        with x have "j \<in> set (map (\<lambda>r. case t_id r of Some i \<Rightarrow> i | None \<Rightarrow> 0) tbl)"
          by force
        from nextId_gt [OF this] Some show ?thesis by simp
      qed
    qed
    have "upsertAttribute i n w v (tbl @ [?new]) = saveAttribute ?new (tbl @ [?new])"
      using f by (simp add: upsertAttribute_def)
    also have "\<dots> = tbl @ [?new]" by (rule saveAttribute_fresh [OF fresh])
    finally show ?thesis by (simp add: u)
  next
    case (Some r)
    let ?r' = "r\<lparr>t_value := w, t_validTo := v\<rparr>"
    have u: "upsertAttribute i n w v tbl = saveAttribute ?r' tbl"
      using Some by (simp add: upsertAttribute_def)
    have "?P r" using Some by (auto simp: find_Some_iff)
    then have "?P ?r'" by simp
    from find_saveAttribute [OF Some, of ?r'] this
    have f: "find ?P (saveAttribute ?r' tbl) = Some ?r'" by simp
    have "upsertAttribute i n w v (saveAttribute ?r' tbl) = saveAttribute ?r' (saveAttribute ?r' tbl)"
      using f by (simp add: upsertAttribute_def)
    then show ?thesis by (simp add: u saveAttribute_idem)
  qed
qed

lemma handleOwnerChanged_twice:
  "identityRepository (handleOwnerChanged i ownr pc lg (handleOwnerChanged i ownr pc lg s))
     = identityRepository (handleOwnerChanged i ownr pc lg s)
   \<and> delegateRepository (handleOwnerChanged i ownr pc lg (handleOwnerChanged i ownr pc lg s))
     = delegateRepository (handleOwnerChanged i ownr pc lg s)
   \<and> attributeRepository (handleOwnerChanged i ownr pc lg (handleOwnerChanged i ownr pc lg s))
     = attributeRepository (handleOwnerChanged i ownr pc lg s)
   \<and> length (eventRepository (handleOwnerChanged i ownr pc lg (handleOwnerChanged i ownr pc lg s)))
     = Suc (length (eventRepository (handleOwnerChanged i ownr pc lg s)))"
  by (auto simp: handleOwnerChanged_def saveEvent_def Let_def split: option.splits)

lemma handleDelegateChanged_twice:
  "identityRepository (handleDelegateChanged eth i t d v pc lg (handleDelegateChanged eth i t d v pc lg s))
     = identityRepository (handleDelegateChanged eth i t d v pc lg s)
   \<and> delegateRepository (handleDelegateChanged eth i t d v pc lg (handleDelegateChanged eth i t d v pc lg s))
     = delegateRepository (handleDelegateChanged eth i t d v pc lg s)
   \<and> attributeRepository (handleDelegateChanged eth i t d v pc lg (handleDelegateChanged eth i t d v pc lg s))
     = attributeRepository (handleDelegateChanged eth i t d v pc lg s)
   \<and> length (eventRepository (handleDelegateChanged eth i t d v pc lg (handleDelegateChanged eth i t d v pc lg s)))
     = Suc (length (eventRepository (handleDelegateChanged eth i t d v pc lg s)))"
  by (auto simp: handleDelegateChanged_def saveEvent_def ensureIdentity_def Let_def
        upsertDelegate_idem split: option.splits)

lemma handleAttributeChanged_twice:
  "identityRepository (handleAttributeChanged eth i n w v pc lg (handleAttributeChanged eth i n w v pc lg s))
     = identityRepository (handleAttributeChanged eth i n w v pc lg s)
   \<and> delegateRepository (handleAttributeChanged eth i n w v pc lg (handleAttributeChanged eth i n w v pc lg s))
     = delegateRepository (handleAttributeChanged eth i n w v pc lg s)
   \<and> attributeRepository (handleAttributeChanged eth i n w v pc lg (handleAttributeChanged eth i n w v pc lg s))
     = attributeRepository (handleAttributeChanged eth i n w v pc lg s)
   \<and> length (eventRepository (handleAttributeChanged eth i n w v pc lg (handleAttributeChanged eth i n w v pc lg s)))
     = Suc (length (eventRepository (handleAttributeChanged eth i n w v pc lg s)))"
  by (auto simp: handleAttributeChanged_def saveEvent_def ensureIdentity_def Let_def
        upsertAttribute_idem split: option.splits)

text \<open>
  C6, as the code has it. Applying an event a second time, right after the first, leaves
  the Identity, Delegate and Attribute tables as the first application left them. The
  Event table is not keyed by transaction, kind and position: each application appends a
  row to it.
\<close>

theorem applyEvent_twice_projections:
  "identityRepository (applyEvent eth e (applyEvent eth e s)) = identityRepository (applyEvent eth e s)
   \<and> delegateRepository (applyEvent eth e (applyEvent eth e s)) = delegateRepository (applyEvent eth e s)
   \<and> attributeRepository (applyEvent eth e (applyEvent eth e s)) = attributeRepository (applyEvent eth e s)
   \<and> length (eventRepository (applyEvent eth e (applyEvent eth e s)))
       = Suc (length (eventRepository (applyEvent eth e s)))"
proof (cases e)
  case (OwnerChanged i ownr pc lg)
  then show ?thesis using handleOwnerChanged_twice [of i ownr pc lg s] by simp
next
  case (DelegateChanged i t d v pc lg)
  then show ?thesis using handleDelegateChanged_twice [of eth i t d v pc lg s] by simp
next
  case (AttributeChanged i n w v pc lg)
  then show ?thesis using handleAttributeChanged_twice [of eth i n w v pc lg s] by simp
qed

theorem applyEvent_twice_projections_witness:
  "delegateRepository (applyEvent demoEthers grantEvent (applyEvent demoEthers grantEvent emptyStore))
     = delegateRepository (applyEvent demoEthers grantEvent emptyStore)
   \<and> delegateRepository (applyEvent demoEthers grantEvent emptyStore) = [grantedD]"
proof -
  have "delegateRepository (applyEvent demoEthers grantEvent emptyStore) = [grantedD]"
    by (simp add: grantEvent_def demoEthers_def emptyStore_def handleDelegateChanged_def
        saveEvent_def ensureIdentity_def upsertDelegate_def nextId_def grantedD_def
        strings_lower Let_def)
  with applyEvent_twice_projections [of demoEthers grantEvent emptyStore]
  show ?thesis by simp
qed

text \<open>
  The claim as stated fails on the Event table: the grant of block 5, delivered twice to
  the empty store, is logged twice, as rows 1 and 2 with the same transaction, kind and
  block.
\<close>

theorem applyEvent_twice_appends_event:
  "eventRepository (applyEvent demoEthers grantEvent emptyStore) = [delegateGrant]
   \<and> eventRepository (applyEvent demoEthers grantEvent (applyEvent demoEthers grantEvent emptyStore))
       = [delegateGrant, delegateGrant\<lparr>e_id := 2\<rparr>]
   \<and> eventRepository (applyEvent demoEthers grantEvent (applyEvent demoEthers grantEvent emptyStore))
       \<noteq> eventRepository (applyEvent demoEthers grantEvent emptyStore)"
  by (simp add: grantEvent_def demoEthers_def emptyStore_def handleDelegateChanged_def
      saveEvent_def ensureIdentity_def nextId_def delegateGrant_def noArgs_def decimal_0
      Let_def)

section \<open>The replay of the event log\<close>

subsection \<open>Keys of the delegate map\<close>

lemma key_inj:
  assumes "CHR '':'' \<notin> set a" "CHR '':'' \<notin> set a'"
  shows "(t @ '':'' @ a = t' @ '':'' @ a') = (t = t' \<and> a = a')"
proof
  assume e: "t @ '':'' @ a = t' @ '':'' @ a'"
  have "last (split CHR '':'' (t @ CHR '':'' # a)) = a"
    by (rule last_split_sep [OF assms(1)])
  moreover have "last (split CHR '':'' (t' @ CHR '':'' # a')) = a'"
    by (rule last_split_sep [OF assms(2)])
  ultimately have "a = a'" using e by simp
  with e show "t = t' \<and> a = a'" by simp
qed simp

lemma split_two:
  "c \<notin> set t \<Longrightarrow> c \<notin> set a \<Longrightarrow> split c (t @ c # a) = [t, a]"
  by (induction t) (auto simp: Let_def split_no_sep)

subsection \<open>The events of an identity up to a block\<close>

lemma events_upto:
  "filter (identityIs addr) (findAsc (\<lambda>e. blockNumber e \<le> P) tbl) = spec_eventsUpTo addr P tbl"
proof -
  have "(\<lambda>x. identityIs addr x \<and> blockNumber x \<le> P) = (\<lambda>x. blockNumber x \<le> P \<and> identityIs addr x)"
    by auto
  then show ?thesis
    by (simp add: findAsc_def spec_eventsUpTo_def filter_sort conj_commute)
qed

lemma events_upto_named:
  "filter (identityIs addr) (findAsc (\<lambda>e. eventName e = n \<and> blockNumber e \<le> P) tbl)
     = filter (\<lambda>e. eventName e = n) (spec_eventsUpTo addr P tbl)"
  by (simp add: findAsc_def spec_eventsUpTo_def filter_sort conj_ac)

lemma events_upto_bound: "e \<in> set (spec_eventsUpTo addr P tbl) \<Longrightarrow> blockNumber e \<le> P"
  by (simp add: spec_eventsUpTo_def)

lemma events_upto_identity: "e \<in> set (spec_eventsUpTo addr P tbl) \<Longrightarrow> identityIs addr e"
  by (simp add: spec_eventsUpTo_def)

lemma events_upto_subset: "e \<in> set (spec_eventsUpTo addr P tbl) \<Longrightarrow> e \<in> set tbl"
  by (simp add: spec_eventsUpTo_def)

lemma replayLoop_fold:
  "\<forall>e \<in> set evs. blockNumber e \<le> P \<Longrightarrow> replayLoop P evs st = fold replayEvent evs st"
  by (induction evs arbitrary: st) auto


subsection \<open>The owner\<close>

lemma firstOwner_filter: "firstOwner addr (filter (identityIs addr) evs) = firstOwner addr evs"
  by (induction evs) auto

lemma firstOwner_append:
  "firstOwner addr (xs @ ys)
     = (case firstOwner addr xs of Some ownr \<Rightarrow> Some ownr | None \<Rightarrow> firstOwner addr ys)"
  by (induction xs) auto

lemma spec_owner_fold:
  "\<forall>e \<in> set evs. identityIs addr e \<Longrightarrow>
   s_owner (fold spec_apply evs sp)
     = (case firstOwner addr (rev (filter (\<lambda>e. eventName e = ''DIDOwnerChanged'') evs)) of
          Some ownr \<Rightarrow> ownr | None \<Rightarrow> s_owner sp)"
proof (induction evs arbitrary: sp)
  case Nil
  then show ?case by simp
next
  case (Cons e evs)
  then have ih: "s_owner (fold spec_apply evs (spec_apply e sp))
     = (case firstOwner addr (rev (filter (\<lambda>e. eventName e = ''DIDOwnerChanged'') evs)) of
          Some ownr \<Rightarrow> ownr | None \<Rightarrow> s_owner (spec_apply e sp))"
    by simp
  from Cons.prems have ie: "identityIs addr e" by simp
  show ?case
  proof (cases "eventName e = ''DIDOwnerChanged''")
    case True
    then have "s_owner (spec_apply e sp) = toLowerCase (a_owner (args e))"
      by (simp add: spec_apply_def)
    with True ie ih show ?thesis
      by (simp add: firstOwner_append split: option.splits)
  next
    case False
    then have "s_owner (spec_apply e sp) = s_owner sp"
      by (simp add: spec_apply_def)
    with False ih show ?thesis by (simp split: option.splits)
  qed
qed

lemma getOwnerAtBlock_spec:
  "getOwnerAtBlock s did P = s_owner (spec_stateAt (extractAddress did) P (eventRepository s))"
proof -
  let ?addr = "extractAddress did"
  let ?L = "spec_eventsUpTo ?addr P (eventRepository s)"
  have "firstOwner ?addr (findDesc (\<lambda>e. eventName e = ''DIDOwnerChanged'' \<and> blockNumber e \<le> P)
                            (eventRepository s))
        = firstOwner ?addr (rev (filter (\<lambda>e. eventName e = ''DIDOwnerChanged'') ?L))"
    unfolding findDesc_def
    by (subst firstOwner_filter [symmetric])
       (simp only: rev_filter [symmetric] events_upto_named)
  moreover have "\<forall>e \<in> set ?L. identityIs ?addr e"
    by (simp add: events_upto_identity)
  ultimately show ?thesis
    by (simp add: getOwnerAtBlock_def spec_stateAt_def spec_owner_fold extractAddress_lower
        Let_def split: option.splits)
qed


subsection \<open>The delegate and attribute maps\<close>

lemma map_of_update_decoded:
  assumes "\<forall>kv \<in> set km. (fst kv = k) = (f (snd kv) = f v)"
  shows "map_of (map (\<lambda>kv. (f (snd kv), h (snd kv))) (AList.update k v km))
           = (map_of (map (\<lambda>kv. (f (snd kv), h (snd kv))) km))(f v \<mapsto> h v)"
  using assms
proof (induction km)
  case Nil
  then show ?case by simp
next
  case (Cons p km)
  obtain k' v' where p: "p = (k', v')" by (cases p)
  have ih: "map_of (map (\<lambda>kv. (f (snd kv), h (snd kv))) (AList.update k v km))
           = (map_of (map (\<lambda>kv. (f (snd kv), h (snd kv))) km))(f v \<mapsto> h v)"
    by (rule Cons.IH) (use Cons.prems in simp)
  from Cons.prems p have e: "(k' = k) = (f v' = f v)" by simp
  show ?case
  proof (cases "k' = k")
    case True
    with e p show ?thesis by (auto simp: fun_eq_iff)
  next
    case False
    with e have "f v' \<noteq> f v" by simp
    with False p ih show ?thesis by (auto simp: fun_eq_iff)
  qed
qed

lemma list_all_update:
  "list_all Q km \<Longrightarrow> Q (k, v) \<Longrightarrow> list_all Q (AList.update k v km)"
  by (induction km) (auto)

lemma distinct_decoded:
  assumes "list_all (\<lambda>kv. fst kv = G (f (snd kv))) km" and "distinct (map fst km)"
  shows "distinct (map f (map snd km))"
proof -
  have "map fst km = map G (map f (map snd km))"
    using assms(1) by (induction km) auto
  with assms(2) have "distinct (map G (map f (map snd km)))" by simp
  then show ?thesis by (simp only: distinct_map [of G])
qed

lemma entries_decoded:
  "delegateEntries (map snd km)
     = map_of (map (\<lambda>kv. ((delegateType (snd kv), delegateAddress (snd kv)), d_validTo (snd kv))) km)"
  "attributeEntries (map snd am)
     = map_of (map (\<lambda>ka. (t_name (snd ka), (t_value (snd ka), t_validTo (snd ka)))) am)"
  by (simp_all add: delegateEntries_def attributeEntries_def comp_def)

lemma replayMatches_step:
  assumes m: "replayMatches addr st sp" and nc: "CHR '':'' \<notin> set (a_delegate (args e))"
  shows "replayMatches addr (replayEvent e st) (spec_apply e sp)"
proof -
  consider (oc) "eventName e = ''DIDOwnerChanged''"
    | (dc) "eventName e = ''DIDDelegateChanged''"
    | (ac) "eventName e = ''DIDAttributeChanged''"
    | (other) "eventName e \<noteq> ''DIDOwnerChanged''" "eventName e \<noteq> ''DIDDelegateChanged''"
        "eventName e \<noteq> ''DIDAttributeChanged''"
    by blast
  then show ?thesis
  proof cases
    case oc
    with m show ?thesis by (simp add: replayMatches_def replayEvent_def spec_apply_def)
  next
    case dc
    let ?t = "a_delegateType (args e)"
    let ?a = "toLowerCase (a_delegate (args e))"
    let ?k = "delegateKey ?t (a_delegate (args e))"
    let ?d = "\<lparr>d_id = None, d_identity = None, delegateType = ?t, delegateAddress = ?a,
               d_validTo = a_validTo (args e)\<rparr>"
    let ?km = "delegatesMap st"
    have na: "CHR '':'' \<notin> set ?a" using nc by (simp add: colon_toLowerCase)
    have st': "replayEvent e st = st\<lparr>delegatesMap := AList.update ?k ?d ?km\<rparr>"
      using dc by (simp add: replayEvent_def)
    have sp': "spec_apply e sp = sp\<lparr>s_delegates := (s_delegates sp)((?t, ?a) \<mapsto> a_validTo (args e))\<rparr>"
      using dc by (simp add: spec_apply_def)
    from m have keys: "list_all (\<lambda>kd. fst kd = delegateType (snd kd) @ '':'' @ delegateAddress (snd kd)
                      \<and> CHR '':'' \<notin> set (delegateAddress (snd kd))) ?km"
      and dist: "distinct (map fst ?km)"
      and ent: "delegateEntries (map snd ?km) = s_delegates sp"
      by (simp_all add: replayMatches_def)
    have same: "\<forall>kv \<in> set ?km. (fst kv = ?k)
        = ((delegateType (snd kv), delegateAddress (snd kv)) = (delegateType ?d, delegateAddress ?d))"
    proof
      fix kv assume "kv \<in> set ?km"
      with keys have k: "fst kv = delegateType (snd kv) @ '':'' @ delegateAddress (snd kv)"
        and n: "CHR '':'' \<notin> set (delegateAddress (snd kv))"
        by (auto simp: list_all_iff)
      show "(fst kv = ?k)
        = ((delegateType (snd kv), delegateAddress (snd kv)) = (delegateType ?d, delegateAddress ?d))"
        using key_inj [OF n na, of "delegateType (snd kv)" ?t] k
        by (simp add: delegateKey_def)
    qed
    have ent': "delegateEntries (map snd (AList.update ?k ?d ?km))
                  = (s_delegates sp)((?t, ?a) \<mapsto> a_validTo (args e))"
      using map_of_update_decoded [OF same, of d_validTo] ent
      by (simp add: entries_decoded)
    have keys': "list_all (\<lambda>kd. fst kd = delegateType (snd kd) @ '':'' @ delegateAddress (snd kd)
                      \<and> CHR '':'' \<notin> set (delegateAddress (snd kd))) (AList.update ?k ?d ?km)"
      using keys na by (intro list_all_update) (simp_all add: delegateKey_def)
    have dist': "distinct (map fst (AList.update ?k ?d ?km))"
      using dist by (rule distinct_update)
    from m keys' dist' ent' show ?thesis
      by (simp add: replayMatches_def st' sp')
  next
    case ac
    let ?n = "a_name (args e)"
    let ?at = "\<lparr>t_id = None, t_identity = None, t_name = ?n, t_value = a_value (args e),
                t_validTo = a_validTo (args e)\<rparr>"
    let ?am = "attributesMap st"
    have st': "replayEvent e st = st\<lparr>attributesMap := AList.update ?n ?at ?am\<rparr>"
      using ac by (simp add: replayEvent_def)
    have sp': "spec_apply e sp
                 = sp\<lparr>s_attributes := (s_attributes sp)(?n \<mapsto> (a_value (args e), a_validTo (args e)))\<rparr>"
      using ac by (simp add: spec_apply_def)
    from m have keys: "list_all (\<lambda>ka. fst ka = t_name (snd ka)) ?am"
      and dist: "distinct (map fst ?am)"
      and ent: "attributeEntries (map snd ?am) = s_attributes sp"
      by (simp_all add: replayMatches_def)
    have same: "\<forall>ka \<in> set ?am. (fst ka = ?n) = (t_name (snd ka) = t_name ?at)"
      using keys by (auto simp: list_all_iff)
    have ent': "attributeEntries (map snd (AList.update ?n ?at ?am))
                  = (s_attributes sp)(?n \<mapsto> (a_value (args e), a_validTo (args e)))"
      using map_of_update_decoded [OF same, of "\<lambda>a. (t_value a, t_validTo a)"] ent
      by (simp add: entries_decoded)
    have keys': "list_all (\<lambda>ka. fst ka = t_name (snd ka)) (AList.update ?n ?at ?am)"
      using keys by (intro list_all_update) simp_all
    have dist': "distinct (map fst (AList.update ?n ?at ?am))"
      using dist by (rule distinct_update)
    from m keys' dist' ent' show ?thesis
      by (simp add: replayMatches_def st' sp')
  next
    case other
    with m show ?thesis by (simp add: replayMatches_def replayEvent_def spec_apply_def)
  qed
qed

lemma replayMatches_fold:
  "replayMatches addr st sp \<Longrightarrow> \<forall>e \<in> set evs. CHR '':'' \<notin> set (a_delegate (args e)) \<Longrightarrow>
   replayMatches addr (fold replayEvent evs st) (fold spec_apply evs sp)"
  by (induction evs arbitrary: st sp) (simp_all add: replayMatches_step)

lemma replayMatches_init:
  "replayMatches addr \<lparr>r_owner = None, delegatesMap = [], attributesMap = []\<rparr>
     \<lparr>s_owner = addr, s_delegates = Map.empty, s_attributes = Map.empty\<rparr>"
  by (simp add: replayMatches_def delegateEntries_def attributeEntries_def)

lemma historicalState_matches:
  assumes "\<forall>e \<in> set (eventRepository s). CHR '':'' \<notin> set (a_delegate (args e))"
  shows "\<exists>st. replayMatches (extractAddress did) st
                (spec_stateAt (extractAddress did) P (eventRepository s))
            \<and> historicalState s did P
                = \<lparr>h_owner = r_owner st, h_delegates = map snd (delegatesMap st),
                   h_attributes = map snd (attributesMap st)\<rparr>"
proof -
  let ?addr = "extractAddress did"
  let ?L = "spec_eventsUpTo ?addr P (eventRepository s)"
  let ?st = "fold replayEvent ?L \<lparr>r_owner = None, delegatesMap = [], attributesMap = []\<rparr>"
  have b: "\<forall>e \<in> set ?L. blockNumber e \<le> P" by (simp add: events_upto_bound)
  have n: "\<forall>e \<in> set ?L. CHR '':'' \<notin> set (a_delegate (args e))"
    using assms events_upto_subset by blast
  have "replayMatches ?addr ?st (spec_stateAt ?addr P (eventRepository s))"
    unfolding spec_stateAt_def by (rule replayMatches_fold [OF replayMatches_init n])
  moreover have "historicalState s did P
                = \<lparr>h_owner = r_owner ?st, h_delegates = map snd (delegatesMap ?st),
                   h_attributes = map snd (attributesMap ?st)\<rparr>"
    by (simp add: historicalState_def reconstructStateFromEvents_def events_upto
        replayLoop_fold [OF b] Let_def)
  ultimately show ?thesis by blast
qed

lemmas replay_eval = historicalState_def reconstructStateFromEvents_def replayEvent_def
  findAsc_def identityIs_def delegateKey_def noArgs_def

lemmas log_eval = storeR_def logR_def lateOwnerChange_def delegateRevoke_def
  otherOwnerChange_def delegateGrant_def serviceSet_def grantedD_def

text \<open>
  C1. Let the delegate addresses in the Event table be free of colons (they are ledger
  addresses). For every DID and block \<open>P\<close>, the state that \<open>resolveAtBlock\<close> replays
  stands for the fold of the design over exactly the events of the identity with block
  at most \<open>P\<close>, in the order of block and row id: its owner, read with null as the
  identity itself, and the owner \<open>getOwnerAtBlock\<close> returns are the owner of the fold,
  which starts as the identity and is overwritten by each owner change; its delegate and
  attribute rows hold one row per key and are the maps of the fold, where the latest
  event of a key wins.
\<close>

theorem historicalState_is_replay:
  assumes "\<forall>e \<in> set (eventRepository s). CHR '':'' \<notin> set (a_delegate (args e))"
  shows "(let addr = extractAddress did;
              hs = historicalState s did P;
              sp = spec_stateAt addr P (eventRepository s)
          in (case h_owner hs of None \<Rightarrow> addr | Some ownr \<Rightarrow> ownr) = s_owner sp
           \<and> getOwnerAtBlock s did P = s_owner sp
           \<and> delegateEntries (h_delegates hs) = s_delegates sp
           \<and> distinct (map (\<lambda>d. (delegateType d, delegateAddress d)) (h_delegates hs))
           \<and> attributeEntries (h_attributes hs) = s_attributes sp
           \<and> distinct (map t_name (h_attributes hs)))"
proof -
  from historicalState_matches [OF assms, of did P] obtain st where
    m: "replayMatches (extractAddress did) st
          (spec_stateAt (extractAddress did) P (eventRepository s))"
    and h: "historicalState s did P
              = \<lparr>h_owner = r_owner st, h_delegates = map snd (delegatesMap st),
                 h_attributes = map snd (attributesMap st)\<rparr>"
    by blast
  from m have kd: "list_all (\<lambda>kd. fst kd
        = (\<lambda>p. fst p @ '':'' @ snd p) ((\<lambda>d. (delegateType d, delegateAddress d)) (snd kd)))
        (delegatesMap st)"
    by (simp add: replayMatches_def list_all_iff)
  from m have dd: "distinct (map fst (delegatesMap st))" by (simp add: replayMatches_def)
  from m have ka: "list_all (\<lambda>ka. fst ka = id (t_name (snd ka))) (attributesMap st)"
    by (simp add: replayMatches_def)
  from m have da: "distinct (map fst (attributesMap st))" by (simp add: replayMatches_def)
  note d1 = distinct_decoded
              [where G = "\<lambda>p. fst p @ '':'' @ snd p"
                 and f = "\<lambda>d. (delegateType d, delegateAddress d)", OF kd dd]
  note d2 = distinct_decoded [where G = id and f = t_name, OF ka da]
  from m d1 d2 show ?thesis
    by (simp add: h replayMatches_def getOwnerAtBlock_spec Let_def)
qed


theorem historicalState_is_replay_witness:
  "h_owner (historicalState storeR didX 9) = None
   \<and> s_owner (spec_stateAt idX 9 logR) = idX
   \<and> h_delegates (historicalState storeR didX 9)
       = [\<lparr>d_id = None, d_identity = None, delegateType = ''sigAuth'',
           delegateAddress = lowD, d_validTo = 1200\<rparr>]
   \<and> s_delegates (spec_stateAt idX 9 logR) (''sigAuth'', lowD) = Some 1200
   \<and> s_attributes (spec_stateAt idX 9 logR) ''did/svc/hub'' = Some (''https://hub.example'', 5000)
   \<and> getOwnerAtBlock storeR didX 9 = idX"
proof -
  have wf: "\<forall>e \<in> set (eventRepository storeR). CHR '':'' \<notin> set (a_delegate (args e))"
    by (simp add: log_eval noArgs_def delegateD_def)
  have hs: "historicalState storeR didX 9
              = \<lparr>h_owner = None,
                 h_delegates = [\<lparr>d_id = None, d_identity = None, delegateType = ''sigAuth'',
                                 delegateAddress = lowD, d_validTo = 1200\<rparr>],
                 h_attributes = [\<lparr>t_id = None, t_identity = None, t_name = ''did/svc/hub'',
                                  t_value = ''https://hub.example'', t_validTo = 5000\<rparr>]\<rparr>"
    by (simp add: replay_eval log_eval strings_eval)
  have ev: "eventRepository storeR = logR" by (simp add: storeR_def)
  let ?sp = "spec_stateAt idX 9 logR"
  let ?d = "\<lparr>d_id = None, d_identity = None, delegateType = ''sigAuth'',
             delegateAddress = lowD, d_validTo = 1200\<rparr>"
  let ?a = "\<lparr>t_id = None, t_identity = None, t_name = ''did/svc/hub'',
             t_value = ''https://hub.example'', t_validTo = 5000\<rparr>"
  from historicalState_is_replay [OF wf, of didX 9]
  have t: "idX = s_owner ?sp" "getOwnerAtBlock storeR didX 9 = s_owner ?sp"
    "delegateEntries [?d] = s_delegates ?sp" "attributeEntries [?a] = s_attributes ?sp"
    by (simp_all add: Let_def hs ev strings_did)
  have "s_delegates ?sp (''sigAuth'', lowD) = delegateEntries [?d] (''sigAuth'', lowD)"
    by (simp only: t(3))
  then have d: "s_delegates ?sp (''sigAuth'', lowD) = Some 1200"
    by (simp add: delegateEntries_def)
  have "s_attributes ?sp ''did/svc/hub'' = attributeEntries [?a] ''did/svc/hub''"
    by (simp only: t(4))
  then have a: "s_attributes ?sp ''did/svc/hub'' = Some (''https://hub.example'', 5000)"
    by (simp add: attributeEntries_def)
  from t(1,2) d a show ?thesis by (simp add: hs)
qed


section \<open>Authority at the resolved block\<close>

lemma delegateLoop_fold:
  "delegateLoop addr evs ds
     = fold (\<lambda>e. AList.update (delegateKey (a_delegateType (args e)) (a_delegate (args e)))
                    (a_validTo (args e)))
         (filter (identityIs addr) evs) ds"
  by (induction evs arbitrary: ds) simp_all

lemma spec_delegates_fold:
  "s_delegates (fold spec_apply evs sp)
     = fold (\<lambda>e m. m((a_delegateType (args e), toLowerCase (a_delegate (args e)))
                      \<mapsto> a_validTo (args e)))
         (filter (\<lambda>e. eventName e = ''DIDDelegateChanged'') evs) (s_delegates sp)"
proof (induction evs arbitrary: sp)
  case Nil
  then show ?case by simp
next
  case (Cons e evs)
  show ?case
  proof (cases "eventName e = ''DIDDelegateChanged''")
    case True
    then have "s_delegates (spec_apply e sp)
            = (s_delegates sp)((a_delegateType (args e), toLowerCase (a_delegate (args e)))
                                 \<mapsto> a_validTo (args e))"
      by (simp add: spec_apply_def)
    with True Cons.IH [of "spec_apply e sp"] show ?thesis by simp
  next
    case False
    then have "s_delegates (spec_apply e sp) = s_delegates sp"
      by (simp add: spec_apply_def)
    with False Cons.IH [of "spec_apply e sp"] show ?thesis by simp
  qed
qed

lemma delegateStateMatches_step:
  assumes m: "delegateStateMatches ds m"
    and nd: "CHR '':'' \<notin> set d" and nt: "CHR '':'' \<notin> set t"
  shows "delegateStateMatches (AList.update (delegateKey t d) v ds) (m((t, toLowerCase d) \<mapsto> v))"
proof -
  let ?a = "toLowerCase d"
  have na: "CHR '':'' \<notin> set ?a" using nd by (simp add: colon_toLowerCase)
  have k: "delegateKey t d = t @ '':'' @ ?a" by (simp add: delegateKey_def)
  from m have p1: "list_all (\<lambda>kv. \<exists>t a. fst kv = t @ '':'' @ a \<and> CHR '':'' \<notin> set t
                                   \<and> CHR '':'' \<notin> set a) ds"
    and p2: "distinct (map fst ds)"
    and p3: "\<And>t a. CHR '':'' \<notin> set a \<Longrightarrow> map_of ds (t @ '':'' @ a) = m (t, a)"
    and p4: "\<And>t a v. m (t, a) = Some v \<Longrightarrow> CHR '':'' \<notin> set a"
    unfolding delegateStateMatches_def by blast+
  have q1: "list_all (\<lambda>kv. \<exists>t a. fst kv = t @ '':'' @ a \<and> CHR '':'' \<notin> set t
                                   \<and> CHR '':'' \<notin> set a) (AList.update (delegateKey t d) v ds)"
  proof (rule list_all_update [OF p1])
    show "\<exists>t' a. fst (delegateKey t d, v) = t' @ '':'' @ a \<and> CHR '':'' \<notin> set t'
                  \<and> CHR '':'' \<notin> set a"
      using k nt na by auto
  qed
  have q2: "distinct (map fst (AList.update (delegateKey t d) v ds))"
    using p2 by (rule distinct_update)
  have q3: "map_of (AList.update (delegateKey t d) v ds) (t' @ '':'' @ a')
              = (m((t, ?a) \<mapsto> v)) (t', a')" if "CHR '':'' \<notin> set a'" for t' a'
    using key_inj [OF that na, of t' t] p3 [OF that, of t'] by (auto simp: update_conv' k)
  have q4: "CHR '':'' \<notin> set a'" if "(m((t, ?a) \<mapsto> v)) (t', a') = Some v'" for t' a' v'
    using that na p4 [of t' a' v'] by (auto split: if_splits)
  from q1 q2 q3 q4 show ?thesis
    unfolding delegateStateMatches_def by blast
qed

lemma delegateStateMatches_fold:
  assumes "delegateStateMatches ds m"
    and "\<forall>e \<in> set evs. CHR '':'' \<notin> set (a_delegate (args e))
                         \<and> CHR '':'' \<notin> set (a_delegateType (args e))"
  shows "delegateStateMatches
           (fold (\<lambda>e. AList.update (delegateKey (a_delegateType (args e)) (a_delegate (args e)))
                         (a_validTo (args e))) evs ds)
           (fold (\<lambda>e m. m((a_delegateType (args e), toLowerCase (a_delegate (args e)))
                           \<mapsto> a_validTo (args e))) evs m)"
  using assms
proof (induction evs arbitrary: ds m)
  case Nil
  then show ?case by simp
next
  case (Cons e evs)
  from Cons.prems have "delegateStateMatches
      (AList.update (delegateKey (a_delegateType (args e)) (a_delegate (args e)))
         (a_validTo (args e)) ds)
      (m((a_delegateType (args e), toLowerCase (a_delegate (args e))) \<mapsto> a_validTo (args e)))"
    by (intro delegateStateMatches_step) simp_all
  from Cons.IH [OF this] Cons.prems(2) show ?case by simp
qed

lemma delegateHit_keyed:
  assumes "CHR '':'' \<notin> set t" "CHR '':'' \<notin> set a"
  shows "delegateHit signer ts (t @ '':'' @ a, v) = (a = signer \<and> v > ts)"
  using split_two [OF assms] by (simp add: delegateHit_def)

lemma delegateHit_iff:
  assumes m: "delegateStateMatches ds m"
  shows "list_ex (delegateHit signer ts) ds \<longleftrightarrow> (\<exists>t v. m (t, signer) = Some v \<and> v > ts)"
proof
  from m have p1: "\<And>kv. kv \<in> set ds \<Longrightarrow> \<exists>t a. fst kv = t @ '':'' @ a \<and> CHR '':'' \<notin> set t
                                   \<and> CHR '':'' \<notin> set a"
    and p2: "distinct (map fst ds)"
    and p3: "\<And>t a. CHR '':'' \<notin> set a \<Longrightarrow> map_of ds (t @ '':'' @ a) = m (t, a)"
    and p4: "\<And>t a v. m (t, a) = Some v \<Longrightarrow> CHR '':'' \<notin> set a"
    unfolding delegateStateMatches_def list_all_iff by blast+
  {
    assume "list_ex (delegateHit signer ts) ds"
    then obtain kv where kv: "kv \<in> set ds" "delegateHit signer ts kv"
      by (auto simp: list_ex_iff)
    from p1 [OF kv(1)] obtain t a where ta: "fst kv = t @ '':'' @ a" "CHR '':'' \<notin> set t"
      "CHR '':'' \<notin> set a" by blast
    then have kv': "kv = (t @ '':'' @ a, snd kv)" by (cases kv) simp
    with kv(2) delegateHit_keyed [OF ta(2,3), of signer ts "snd kv"]
    have h: "a = signer" "snd kv > ts" by simp_all
    from kv(1) kv' p2 have "map_of ds (t @ '':'' @ a) = Some (snd kv)"
      by (metis map_of_eq_Some_iff)
    with p3 [OF ta(3), of t] h show "\<exists>t v. m (t, signer) = Some v \<and> v > ts" by auto
  }
  {
    assume "\<exists>t v. m (t, signer) = Some v \<and> v > ts"
    then obtain t v where tv: "m (t, signer) = Some v" "v > ts" by blast
    from p4 [OF tv(1)] have ns: "CHR '':'' \<notin> set signer" .
    from p3 [OF ns, of t] tv(1) have "map_of ds (t @ '':'' @ signer) = Some v" by simp
    then have i: "(t @ '':'' @ signer, v) \<in> set ds" by (rule map_of_SomeD)
    from p1 [OF i] obtain t' a' where ta: "t @ '':'' @ signer = t' @ '':'' @ a'"
      "CHR '':'' \<notin> set t'" "CHR '':'' \<notin> set a'" by auto
    from key_inj [OF ns ta(3), of t t'] ta(1) have "t = t'" by simp
    with ta(2) have nt: "CHR '':'' \<notin> set t" by simp
    from delegateHit_keyed [OF nt ns, of signer ts v] tv(2)
    have "delegateHit signer ts (t @ '':'' @ signer, v)" by simp
    with i show "list_ex (delegateHit signer ts) ds" by (auto simp: list_ex_iff)
  }
qed

lemma delegateState_spec:
  assumes "\<forall>e \<in> set (eventRepository s). identityIs addr e \<longrightarrow>
             CHR '':'' \<notin> set (a_delegate (args e))
             \<and> CHR '':'' \<notin> set (a_delegateType (args e))"
  shows "delegateStateMatches
           (delegateLoop addr
              (findAsc (\<lambda>e. eventName e = ''DIDDelegateChanged'' \<and> blockNumber e \<le> bn)
                 (eventRepository s)) [])
           (s_delegates (spec_stateAt addr bn (eventRepository s)))"
proof -
  let ?L = "filter (\<lambda>e. eventName e = ''DIDDelegateChanged'')
              (spec_eventsUpTo addr bn (eventRepository s))"
  have n: "\<forall>e \<in> set ?L. CHR '':'' \<notin> set (a_delegate (args e))
                         \<and> CHR '':'' \<notin> set (a_delegateType (args e))"
    using assms by (auto simp: spec_eventsUpTo_def)
  have i: "delegateStateMatches [] Map.empty"
    by (simp add: delegateStateMatches_def)
  from delegateStateMatches_fold [OF i n] show ?thesis
    by (simp add: delegateLoop_fold events_upto_named spec_stateAt_def spec_delegates_fold)
qed

lemma wasValidSignerAtBlock_spec:
  assumes wf: "\<forall>e \<in> set (eventRepository s). identityIs (extractAddress did) e \<longrightarrow>
                 CHR '':'' \<notin> set (a_delegate (args e))
                 \<and> CHR '':'' \<notin> set (a_delegateType (args e))"
    and blk: "getBlock provider bn = Inr (Some block)"
  shows "wasValidSignerAtBlock provider s did signerAddress bn
           = Inr (toLowerCase signerAddress
                    = s_owner (spec_stateAt (extractAddress did) bn (eventRepository s))
                  \<or> (\<exists>t v. s_delegates (spec_stateAt (extractAddress did) bn (eventRepository s))
                              (t, toLowerCase signerAddress) = Some v
                           \<and> v > timestamp block))"
  using delegateHit_iff [OF delegateState_spec [OF wf, of bn],
          of "toLowerCase signerAddress" "timestamp block"] blk
  by (auto simp: wasValidSignerAtBlock_def getOwnerAtBlock_spec Let_def)

text \<open>
  What the authority check computes. Let a credential's signature recover a signer, let the
  ledger answer, with \<open>bn\<close> the block that \<open>getBlockByTimestamp\<close> returns for the issuance
  date and \<open>block\<close> that block, and let the delegate types and addresses in the issuer's
  rows of the Event table be free of colons. Then the authority check of \<open>verify\<close> holds
  iff the signer is the owner of the issuer as of block \<open>bn\<close>, or a delegate of the issuer
  (of any type) as of block \<open>bn\<close> whose validity exceeds the timestamp of that block. The
  issuance date enters through \<open>bn\<close> only.
\<close>

lemma verify_authority_at_block:
  assumes "credentialRepository (replace credentialId ''urn:uuid:'' []) = Some c"
    and "JSON_parse env (c_proof c) = Some proof"
    and "checkSignature env c proof = (signatureValid, recovered)"
    and "recovered \<noteq> []"
    and "getBlockByTimestamp provider (Date_parse env (c_issuanceDate c)) = Inr bn"
    and "getBlock provider bn = Inr (Some block)"
    and "\<forall>e \<in> set (eventRepository s). identityIs (extractAddress (c_issuer c)) e \<longrightarrow>
           CHR '':'' \<notin> set (a_delegate (args e))
           \<and> CHR '':'' \<notin> set (a_delegateType (args e))"
  shows "\<exists>r. snd (verify env provider s credentialRepository credentialId) = Inr r
           \<and> (signerValidAtIssuance (checks r) \<longleftrightarrow>
                toLowerCase recovered
                  = s_owner (spec_stateAt (extractAddress (c_issuer c)) bn (eventRepository s))
                \<or> (\<exists>dtype validTo.
                      s_delegates (spec_stateAt (extractAddress (c_issuer c)) bn (eventRepository s))
                        (dtype, toLowerCase recovered) = Some validTo
                      \<and> validTo > timestamp block))"
proof -
  let ?ok = "toLowerCase recovered
                  = s_owner (spec_stateAt (extractAddress (c_issuer c)) bn (eventRepository s))
                \<or> (\<exists>dtype validTo.
                      s_delegates (spec_stateAt (extractAddress (c_issuer c)) bn (eventRepository s))
                        (dtype, toLowerCase recovered) = Some validTo
                      \<and> validTo > timestamp block)"
  have w: "wasValidSignerAtTime provider s (c_issuer c) recovered
             (Date_parse env (c_issuanceDate c)) = Inr ?ok"
    using assms(5) wasValidSignerAtBlock_spec [OF assms(7) assms(6)]
    by (simp add: wasValidSignerAtTime_def)
  have au: "fst (snd (checkAuthority env provider s c signatureValid recovered)) = ?ok"
    using assms(4,5) w by (simp add: checkAuthority_def getOwnerAtTime_def Let_def)
  show ?thesis
    using assms(1,2,3) au
    by (auto simp: verify_def toVerifiableCredential_def Let_def split: option.splits)
qed

text \<open>
  The same on the ledger of Scenario C, whose head is block 5 of time 1000, for the
  credential dated 1500 that the delegate D signed.
\<close>

lemma verify_authority_at_block_scenario:
  "\<exists>r. snd (verify demoEnv (chainOf [0, 200, 400, 600, 800, 1000]) storeC
              (credsBy ''signed-by-D'' ''1970-01-01T00:25:00.000Z'') ''urn:uuid:c1'') = Inr r
       \<and> (signerValidAtIssuance (checks r) \<longleftrightarrow>
            lowD = s_owner (spec_stateAt idX 5 [delegateGrant])
            \<or> (\<exists>dtype validTo.
                  s_delegates (spec_stateAt idX 5 [delegateGrant]) (dtype, lowD) = Some validTo
                  \<and> validTo > 1000))
       \<and> signerValidAtIssuance (checks r)"
proof -
  let ?t = "''1970-01-01T00:25:00.000Z''"
  let ?c = "credentialBy ''signed-by-D'' ?t"
  let ?chain = "chainOf [0, 200, 400, 600, 800, 1000]"
  let ?proof = "\<lparr>p_type = ''EcdsaSecp256k1Signature2019'', p_created = [],
                 p_verificationMethod = [], p_proofPurpose = ''assertionMethod'',
                 proofValue = ''signed-by-D''\<rparr>"
  have h1: "credsBy ''signed-by-D'' ?t (replace ''urn:uuid:c1'' ''urn:uuid:'' []) = Some ?c"
    by (simp add: store_eval startsWith_def)
  have h2: "JSON_parse demoEnv (c_proof ?c) = Some ?proof"
    by (simp add: store_eval)
  have h3: "checkSignature demoEnv ?c ?proof = (False, delegateD)"
    by (simp add: verify_eval strings_eval store_eval)
  have h4: "delegateD \<noteq> []" by (simp add: strings_eval)
  have h5: "getBlockByTimestamp ?chain (Date_parse demoEnv (c_issuanceDate ?c)) = Inr 5"
    by (simp add: verify_eval store_eval)
  have h6: "getBlock ?chain 5 = Inr (Some \<lparr>number = 5, timestamp = 1000\<rparr>)"
    by (simp add: store_eval)
  have h7: "\<forall>e \<in> set (eventRepository storeC). identityIs (extractAddress (c_issuer ?c)) e \<longrightarrow>
              CHR '':'' \<notin> set (a_delegate (args e))
              \<and> CHR '':'' \<notin> set (a_delegateType (args e))"
    by (simp add: store_eval noArgs_def delegateD_def)
  have i: "extractAddress (c_issuer ?c) = idX" "eventRepository storeC = [delegateGrant]"
    by (simp_all add: credentialBy_def storeC_def strings_eval)
  from verify_authority_at_block
         [where credentialRepository = "credsBy ''signed-by-D'' ?t"
            and credentialId = "''urn:uuid:c1''" and env = demoEnv and provider = ?chain
            and s = storeC, OF h1 h2 h3 h4 h5 h6 h7]
  obtain r where r: "snd (verify demoEnv ?chain storeC (credsBy ''signed-by-D'' ?t)
                            ''urn:uuid:c1'') = Inr r"
    and iff: "signerValidAtIssuance (checks r) \<longleftrightarrow>
            lowD = s_owner (spec_stateAt idX 5 [delegateGrant])
            \<or> (\<exists>dtype validTo.
                  s_delegates (spec_stateAt idX 5 [delegateGrant]) (dtype, lowD) = Some validTo
                  \<and> validTo > 1000)"
    unfolding i by (auto simp: strings_lower)
  from r have "r = delegateSigned ?t True" by (simp add: run_delegate_1500)
  then have "signerValidAtIssuance (checks r)" by (simp add: delegateSigned_def)
  with r iff show ?thesis by blast
qed


section \<open>What the binary search computes\<close>

lemma search_lower_bound:
  assumes "\<And>n. n < high \<Longrightarrow> gb n = Inr (Some (blk n))"
    and "\<And>i j. i \<le> j \<Longrightarrow> j < high \<Longrightarrow> timestamp (blk i) \<le> timestamp (blk j)"
    and "low \<le> high"
  shows "\<exists>r. search gb target low high = Inr r \<and> low \<le> r \<and> r \<le> high
           \<and> (\<forall>i. low \<le> i \<and> i < r \<longrightarrow> timestamp (blk i) < target)
           \<and> (r < high \<longrightarrow> target \<le> timestamp (blk r))"
  using assms
proof (induction "high - low" arbitrary: low high rule: less_induct)
  case less
  show ?case
  proof (cases "low < high")
    case False
    then have "search gb target low high = Inr low"
      by (subst search.simps) simp
    with False less.prems(3) show ?thesis by auto
  next
    case True
    define mid where "mid = (low + high) div 2"
    have m: "low \<le> mid" "mid < high" using True by (simp_all add: mid_def)
    have g: "gb mid = Inr (Some (blk mid))" using less.prems(1) m by simp
    show ?thesis
    proof (cases "timestamp (blk mid) < target")
      case lt: True
      have s: "search gb target low high = search gb target (mid + 1) high"
        using True g lt by (simp add: search.simps [of gb target low high] mid_def Let_def)
      have "high - (mid + 1) < high - low" using m by simp
      from less.hyps [OF this less.prems(1) less.prems(2)] m
      obtain r where r: "search gb target (mid + 1) high = Inr r" "mid + 1 \<le> r" "r \<le> high"
        "\<forall>i. mid + 1 \<le> i \<and> i < r \<longrightarrow> timestamp (blk i) < target"
        "r < high \<longrightarrow> target \<le> timestamp (blk r)"
        by auto
      have "timestamp (blk i) < target" if "low \<le> i" "i < r" for i
      proof (cases "i \<le> mid")
        case True
        from less.prems(2) [OF True m(2)] lt show ?thesis by simp
      next
        case False
        with r(4) that show ?thesis by simp
      qed
      with r s m show ?thesis by auto
    next
      case ge: False
      have s: "search gb target low high = search gb target low mid"
        using True g ge by (simp add: search.simps [of gb target low high] mid_def Let_def)
      have d: "mid - low < high - low" using m by simp
      have p1: "\<And>n. n < mid \<Longrightarrow> gb n = Inr (Some (blk n))"
        using less.prems(1) m by simp
      have p2: "\<And>i j. i \<le> j \<Longrightarrow> j < mid \<Longrightarrow> timestamp (blk i) \<le> timestamp (blk j)"
        using less.prems(2) m by simp
      from less.hyps [OF d p1 p2 m(1)]
      obtain r where r: "search gb target low mid = Inr r" "low \<le> r" "r \<le> mid"
        "\<forall>i. low \<le> i \<and> i < r \<longrightarrow> timestamp (blk i) < target"
        "r < mid \<longrightarrow> target \<le> timestamp (blk r)"
        by auto
      have "target \<le> timestamp (blk r)"
      proof (cases "r < mid")
        case True
        with r(5) show ?thesis by simp
      next
        case False
        with r(3) have "r = mid" by simp
        with ge show ?thesis by simp
      qed
      with r s m show ?thesis by auto
    qed
  qed
qed

text \<open>
  On a ledger that answers every lookup below its head and whose block times do not
  decrease, \<open>getBlockByTimestamp\<close> returns the first position whose block time is not
  before the instant, and the head when there is none below the head: every earlier block
  is older than the instant, and the block returned, when it is not the head, is not.
\<close>

theorem getBlockByTimestamp_first_block_not_before:
  assumes "getLatest provider = Inr (Some latest)"
    and "\<And>n. n < number latest \<Longrightarrow> getBlock provider n = Inr (Some (blk n))"
    and "\<And>i j. i \<le> j \<Longrightarrow> j < number latest \<Longrightarrow> timestamp (blk i) \<le> timestamp (blk j)"
  shows "\<exists>r. getBlockByTimestamp provider time = Inr r \<and> r \<le> number latest
           \<and> (\<forall>i. i < r \<longrightarrow> timestamp (blk i) < time div 1000)
           \<and> (r < number latest \<longrightarrow> time div 1000 \<le> timestamp (blk r))"
  using search_lower_bound [of "number latest" "getBlock provider" blk 0 "time div 1000",
          OF assms(2) assms(3)] assms(1)
  by (auto simp: getBlockByTimestamp_def Let_def)


theorem getBlockByTimestamp_first_block_not_before_witness:
  "\<exists>r. getBlockByTimestamp (chainOf [100, 200, 300]) 210000 = Inr r \<and> r = 2"
proof -
  let ?blk = "\<lambda>n. \<lparr>number = n, timestamp = [100, 200, 300] ! n\<rparr>"
  let ?latest = "\<lparr>number = 2, timestamp = 300\<rparr>"
  have h1: "getLatest (chainOf [100, 200, 300]) = Inr (Some ?latest)"
    by (simp add: chainOf_def)
  have h2: "\<And>n. n < number ?latest \<Longrightarrow> getBlock (chainOf [100, 200, 300]) n = Inr (Some (?blk n))"
    by (simp add: chainOf_def)
  have h3: "\<And>i j. i \<le> j \<Longrightarrow> j < number ?latest \<Longrightarrow> timestamp (?blk i) \<le> timestamp (?blk j)"
    by (auto simp: less_Suc_eq numeral_2_eq_2 nth_Cons')
  from getBlockByTimestamp_first_block_not_before [of "chainOf [100, 200, 300]" ?latest ?blk 210000,
         OF h1 h2 h3]
  obtain r where r: "getBlockByTimestamp (chainOf [100, 200, 300]) 210000 = Inr r" "r \<le> 2"
    "r < 2 \<longrightarrow> (210 :: int) \<le> [100, 200, 300] ! r"
    by auto
  from r(2,3) have "r = 2"
    by (cases "r = 0"; cases "r = 1") (auto simp: nth_Cons')
  with r(1) show ?thesis by simp
qed

text \<open>
  On such a ledger an instant not after the time of block 0 resolves to position 0,
  and an instant after the time of every block below the head resolves to the head.
\<close>

theorem getBlockByTimestamp_ends:
  assumes "getLatest provider = Inr (Some latest)"
    and "\<And>n. n < number latest \<Longrightarrow> getBlock provider n = Inr (Some (blk n))"
    and "\<And>i j. i \<le> j \<Longrightarrow> j < number latest \<Longrightarrow> timestamp (blk i) \<le> timestamp (blk j)"
  shows "(time div 1000 \<le> timestamp (blk 0) \<longrightarrow> getBlockByTimestamp provider time = Inr 0)
       \<and> ((\<forall>i < number latest. timestamp (blk i) < time div 1000) \<longrightarrow>
            getBlockByTimestamp provider time = Inr (number latest))"
proof -
  from search_lower_bound [of "number latest" "getBlock provider" blk 0 "time div 1000",
          OF assms(2) assms(3)] assms(1)
  obtain r where r: "getBlockByTimestamp provider time = Inr r" "r \<le> number latest"
    "\<forall>i. i < r \<longrightarrow> timestamp (blk i) < time div 1000"
    "r < number latest \<longrightarrow> time div 1000 \<le> timestamp (blk r)"
    by (auto simp: getBlockByTimestamp_def Let_def)
  have a: "r = 0" if "time div 1000 \<le> timestamp (blk 0)"
  proof (rule ccontr)
    assume "r \<noteq> 0"
    then have "0 < r" by simp
    with r(3) have "timestamp (blk 0) < time div 1000" by blast
    with that show False by simp
  qed
  have b: "r = number latest" if "\<forall>i < number latest. timestamp (blk i) < time div 1000"
  proof (rule ccontr)
    assume "r \<noteq> number latest"
    with r(2) have l: "r < number latest" by simp
    with r(4) have "time div 1000 \<le> timestamp (blk r)" by simp
    moreover from that l have "timestamp (blk r) < time div 1000" by simp
    ultimately show False by simp
  qed
  from a b r(1) show ?thesis by auto
qed

theorem getBlockByTimestamp_ends_witness:
  "getBlockByTimestamp (chainOf [100, 200, 300]) 50000 = Inr 0
   \<and> getBlockByTimestamp (chainOf [100, 200, 300]) 500000 = Inr 2"
proof -
  let ?blk = "\<lambda>n. \<lparr>number = n, timestamp = [100, 200, 300] ! n\<rparr>"
  let ?latest = "\<lparr>number = 2, timestamp = 300\<rparr>"
  have h1: "getLatest (chainOf [100, 200, 300]) = Inr (Some ?latest)"
    by (simp add: chainOf_def)
  have h2: "\<And>n. n < number ?latest \<Longrightarrow> getBlock (chainOf [100, 200, 300]) n = Inr (Some (?blk n))"
    by (simp add: chainOf_def)
  have h3: "\<And>i j. i \<le> j \<Longrightarrow> j < number ?latest \<Longrightarrow> timestamp (?blk i) \<le> timestamp (?blk j)"
    by (auto simp: less_Suc_eq numeral_2_eq_2 nth_Cons')
  have a: "(50000 :: int) div 1000 \<le> timestamp (?blk 0)" by simp
  have b: "\<forall>i < number ?latest. timestamp (?blk i) < (500000 :: int) div 1000"
    by (auto simp: less_Suc_eq numeral_2_eq_2 nth_Cons')
  from getBlockByTimestamp_ends [of "chainOf [100, 200, 300]" ?latest ?blk 50000, OF h1 h2 h3] a
  have z: "getBlockByTimestamp (chainOf [100, 200, 300]) 50000 = Inr 0" by blast
  from getBlockByTimestamp_ends [of "chainOf [100, 200, 300]" ?latest ?blk 500000, OF h1 h2 h3] b
  have "getBlockByTimestamp (chainOf [100, 200, 300]) 500000 = Inr (number ?latest)" by blast
  with z show ?thesis by simp
qed

end
